theory Spec2Isabelle
  imports Main "HOL-Library.AList"
begin

section \<open>JavaScript values\<close>

text \<open>
  Both programs read their input with \<^verbatim>\<open>JSON.parse\<close> and then look at properties
  of the result. A parsed value is one of the six JSON kinds. A number is kept by its
  JavaScript rendering (the text that \<^verbatim>\<open>String(n)\<close> gives, so \<open>''0''\<close> for both zeros):
  the programs only test numbers for truthiness and splice them into template strings.
  The property list of an object holds the properties the parsed object has; the first
  binding of a name is the object's value for it.
  JavaScript's \<^verbatim>\<open>undefined\<close> is \<open>None\<close> in the type \<open>json option\<close>.
\<close>

datatype json =
    JNull
  | JBool bool
  | JNum string
  | JStr string
  | JArr "json list"
  | JObj "(string \<times> json) list"

datatype js_error = SyntaxError | TypeError | SendError

text \<open>Truthiness, as the conditions \<^verbatim>\<open>msg.run_id\<close>, \<^verbatim>\<open>data.data\<close>, \<^verbatim>\<open>runId\<close> test it.\<close>

fun truthy :: "json option \<Rightarrow> bool" where
  "truthy None = False"
| "truthy (Some JNull) = False"
| "truthy (Some (JBool b)) = b"
| "truthy (Some (JNum n)) = (n \<noteq> ''0'')"
| "truthy (Some (JStr s)) = (s \<noteq> [])"
| "truthy (Some (JArr xs)) = True"
| "truthy (Some (JObj kvs)) = True"

text \<open>
  Reading one of the properties \<^verbatim>\<open>type\<close>, \<^verbatim>\<open>run_id\<close>, \<^verbatim>\<open>data\<close>, \<^verbatim>\<open>project_id\<close>
  (the only ones the programs read). On \<^verbatim>\<open>null\<close> the read throws a TypeError; on an
  object it gives the property or \<^verbatim>\<open>undefined\<close>; on a boolean, number, string or array
  it gives \<^verbatim>\<open>undefined\<close>, none of these names being a property of their prototypes.
\<close>

fun get_prop :: "json \<Rightarrow> string \<Rightarrow> js_error + json option" where
  "get_prop JNull k = Inl TypeError"
| "get_prop (JObj kvs) k = Inr (map_of kvs k)"
| "get_prop v k = Inr None"

text \<open>
  The text a value contributes to a template string, or the TypeError the conversion
  throws. An array is the join of its elements by commas, a \<^verbatim>\<open>null\<close> element
  contributing nothing. An object is \<^verbatim>\<open>[object Object]\<close>, unless it has a property
  \<^verbatim>\<open>toString\<close> of its own: that property, coming from JSON, is not a function, and the
  conversion throws.
\<close>

fun join_comma :: "string list \<Rightarrow> string" where
  "join_comma [] = []"
| "join_comma [s] = s"
| "join_comma (s # t # ss) = s @ '','' @ join_comma (t # ss)"

fun js_string :: "json \<Rightarrow> js_error + string"
  and js_strings :: "json list \<Rightarrow> js_error + string list" where
  "js_string JNull = Inr ''null''"
| "js_string (JBool b) = Inr (if b then ''true'' else ''false'')"
| "js_string (JNum n) = Inr n"
| "js_string (JStr s) = Inr s"
| "js_string (JArr xs) =
     (case js_strings xs of Inl e \<Rightarrow> Inl e | Inr ss \<Rightarrow> Inr (join_comma ss))"
| "js_string (JObj kvs) =
     (case map_of kvs ''toString'' of
        None \<Rightarrow> Inr ''[object Object]''
      | Some f \<Rightarrow> Inl TypeError)"
| "js_strings [] = Inr []"
| "js_strings (x # xs) =
     (case (case x of JNull \<Rightarrow> Inr [] | _ \<Rightarrow> js_string x) of
        Inl e \<Rightarrow> Inl e
      | Inr s \<Rightarrow> (case js_strings xs of Inl e \<Rightarrow> Inl e | Inr ss \<Rightarrow> Inr (s # ss)))"

text \<open>
  What a peer reads back from the text \<^verbatim>\<open>JSON.stringify\<close> writes for a parsed value.
  \<^verbatim>\<open>JSON.stringify\<close> writes a number that is not finite as \<^verbatim>\<open>null\<close> (and
  \<^verbatim>\<open>JSON.parse\<close> gives such numbers: \<^verbatim>\<open>1e400\<close> parses to \<^verbatim>\<open>Infinity\<close>); every other
  value comes back as it was. A property \<^verbatim>\<open>toJSON\<close> of a parsed object is not a
  function and plays no part.
\<close>

definition non_finite :: "string \<Rightarrow> bool" where
  "non_finite n = (n = ''Infinity'' \<or> n = ''-Infinity'' \<or> n = ''NaN'')"

fun on_wire :: "json \<Rightarrow> json" where
  "on_wire JNull = JNull"
| "on_wire (JBool b) = JBool b"
| "on_wire (JNum n) = (if non_finite n then JNull else JNum n)"
| "on_wire (JStr s) = JStr s"
| "on_wire (JArr xs) = JArr (map on_wire xs)"
| "on_wire (JObj kvs) = JObj (map (\<lambda>(k, v). (k, on_wire v)) kvs)"

text \<open>A value that holds no number that is not finite.\<close>

fun finite_json :: "json \<Rightarrow> bool" where
  "finite_json JNull = True"
| "finite_json (JBool b) = True"
| "finite_json (JNum n) = (\<not> non_finite n)"
| "finite_json (JStr s) = True"
| "finite_json (JArr xs) = (\<forall>x \<in> set xs. finite_json x)"
| "finite_json (JObj kvs) = (\<forall>(k, v) \<in> set kvs. finite_json v)"

section \<open>The gateway: sockets, registry and upstream subscriber\<close>

text \<open>
  The frames of the gateway, each by what its text says to the peer that parses it. The
  gateway builds an object, writes it with \<^verbatim>\<open>JSON.stringify\<close> and hands the text to
  \<^verbatim>\<open>ws.send\<close>:
  the welcome \<^verbatim>\<open>{type:'connected', clientId, timestamp}\<close>,
  the acknowledgment \<^verbatim>\<open>{type:'subscribed', channel, run_id}\<close>,
  \<^verbatim>\<open>{type:'pong', timestamp}\<close> and
  \<^verbatim>\<open>{type:'agent_event', channel, data, timestamp}\<close>.
  A parsed value put into such an object reaches the peer as \<open>on_wire\<close> of it.
\<close>

datatype server_msg =
    Connected string nat
  | Subscribed string json
  | Pong nat
  | AgentEvent string json nat

text \<open>The four states of a WebSocket; the gateway compares \<^verbatim>\<open>readyState\<close> with 1.\<close>

datatype ready_state = CONNECTING | OPEN | CLOSING | CLOSED

fun state_code :: "ready_state \<Rightarrow> nat" where
  "state_code CONNECTING = 0"
| "state_code OPEN = 1"
| "state_code CLOSING = 2"
| "state_code CLOSED = 3"

text \<open>
  One accepted connection: the socket \<^verbatim>\<open>ws\<close> together with the \<^verbatim>\<open>clientId\<close> that its
  handlers close over. \<open>sent\<close> is the sequence of frames the socket has taken for
  transmission, in order.
\<close>

record conn =
  clientId :: string
  readyState :: ready_state
  sent :: "server_msg list"

text \<open>
  \<^verbatim>\<open>ws.send\<close> without a callback, as the ws package (the one that exports
  \<^verbatim>\<open>WebSocketServer\<close>) has it: it throws while the socket is still connecting, takes
  the frame for transmission on an open socket (a peer that does not read makes the
  frames queue up, not the call fail), and discards the data without throwing once the
  socket is closing or closed.
\<close>

fun ws_send :: "conn \<Rightarrow> server_msg \<Rightarrow> js_error + conn" where
  "ws_send ws m =
     (case readyState ws of
        CONNECTING \<Rightarrow> Inl SendError
      | OPEN \<Rightarrow> Inr (ws\<lparr>sent := sent ws @ [m]\<rparr>)
      | CLOSING \<Rightarrow> Inr ws
      | CLOSED \<Rightarrow> Inr ws)"

text \<open>
  The module state of \<^verbatim>\<open>gateway/src/index.js\<close>:
  \<^item> \<open>clients\<close> is \<^verbatim>\<open>wss.clients\<close>, in insertion order;
  \<^item> \<open>clientSubscriptions\<close> is the Map from client id to its Set of channels, in
    insertion order (\<open>AList.update\<close> is \<^verbatim>\<open>Map.set\<close>, \<open>AList.delete\<close> is \<^verbatim>\<open>Map.delete\<close>,
    \<open>map_of\<close> is \<^verbatim>\<open>Map.get\<close>);
  \<^item> \<open>redisSub\<close> is \<open>None\<close> when constructing the Redis client threw, and otherwise the
    channels passed to \<^verbatim>\<open>redisSub.subscribe\<close> so far, one entry per call.
\<close>

record gateway =
  clients :: "conn list"
  clientSubscriptions :: "(string \<times> string set) list"
  redisSub :: "string list option"

definition startup :: "bool \<Rightarrow> gateway" where
  "startup redis_ok =
     \<lparr>clients = [], clientSubscriptions = [], redisSub = (if redis_ok then Some [] else None)\<rparr>"

text \<open>
  The channels the upstream subscriber holds. The program never calls
  \<^verbatim>\<open>redisSub.unsubscribe\<close>, so these are the channels of all subscribe calls made.
\<close>

definition upstream :: "gateway \<Rightarrow> string set" where
  "upstream g = (case redisSub g of None \<Rightarrow> {} | Some calls \<Rightarrow> set calls)"

text \<open>The number of registry entries whose channel set holds a channel.\<close>

definition interest :: "gateway \<Rightarrow> string \<Rightarrow> nat" where
  "interest g channel =
     length (filter (\<lambda>(cid, subs). channel \<in> subs) (clientSubscriptions g))"

subsection \<open>The connection handler\<close>

text \<open>
  \<^verbatim>\<open>wss.on('connection')\<close>: the library has added the open socket to \<^verbatim>\<open>wss.clients\<close>;
  the handler draws a client id (a parameter here, the source takes it from
  \<^verbatim>\<open>Math.random\<close>), registers an empty channel set under it and sends the welcome.
\<close>

definition on_connection :: "gateway \<Rightarrow> string \<Rightarrow> nat \<Rightarrow> js_error + gateway" where
  "on_connection g cid now =
     (let ws = \<lparr>clientId = cid, readyState = OPEN, sent = []\<rparr>;
          subs' = AList.update cid {} (clientSubscriptions g)
      in case ws_send ws (Connected cid now) of
           Inl e \<Rightarrow> Inl e
         | Inr ws' \<Rightarrow> Inr (g\<lparr>clients := clients g @ [ws'], clientSubscriptions := subs'\<rparr>))"

subsection \<open>The message handler of one connection\<close>

text \<open>
  The three \<^verbatim>\<open>if\<close> statements inside the \<^verbatim>\<open>try\<close> of \<^verbatim>\<open>ws.on('message')\<close>. Each takes
  the parsed message, the socket and the module state, and gives back the error thrown
  (if any) with the socket and state as they are at that point: what was changed before
  a throw stays changed.
\<close>

type_synonym handler_state = "conn \<times> gateway"

definition subscribe_branch :: "json \<Rightarrow> handler_state \<Rightarrow> js_error option \<times> handler_state" where
  "subscribe_branch msg st =
     (case st of (ws, g) \<Rightarrow>
      (case get_prop msg ''type'' of
         Inl e \<Rightarrow> (Some e, st)
       | Inr ty \<Rightarrow>
          (case get_prop msg ''run_id'' of
             Inl e \<Rightarrow> (Some e, st)
           | Inr rid \<Rightarrow>
              if ty = Some (JStr ''subscribe'') \<and> truthy rid then
                (case rid of
                   None \<Rightarrow> (None, st)
                 | Some r \<Rightarrow>
                    (case js_string r of
                       Inl e \<Rightarrow> (Some e, st)
                     | Inr s \<Rightarrow>
                        (let channel = ''agent_run:'' @ s in
                         case map_of (clientSubscriptions g) (clientId ws) of
                           None \<Rightarrow> (None, st)
                         | Some subs \<Rightarrow>
                            if channel \<in> subs then (None, st)
                            else
                              (let g1 = g\<lparr>clientSubscriptions :=
                                           AList.update (clientId ws) (insert channel subs)
                                             (clientSubscriptions g)\<rparr>;
                                   g2 = g1\<lparr>redisSub :=
                                           (case redisSub g1 of
                                              None \<Rightarrow> None
                                            | Some calls \<Rightarrow> Some (calls @ [channel]))\<rparr>
                               in case ws_send ws (Subscribed channel (on_wire r)) of
                                    Inl e \<Rightarrow> (Some e, (ws, g2))
                                  | Inr ws' \<Rightarrow> (None, (ws', g2))))))
              else (None, st))))"

definition unsubscribe_branch :: "json \<Rightarrow> handler_state \<Rightarrow> js_error option \<times> handler_state" where
  "unsubscribe_branch msg st =
     (case st of (ws, g) \<Rightarrow>
      (case get_prop msg ''type'' of
         Inl e \<Rightarrow> (Some e, st)
       | Inr ty \<Rightarrow>
          (case get_prop msg ''run_id'' of
             Inl e \<Rightarrow> (Some e, st)
           | Inr rid \<Rightarrow>
              if ty = Some (JStr ''unsubscribe'') \<and> truthy rid then
                (case rid of
                   None \<Rightarrow> (None, st)
                 | Some r \<Rightarrow>
                    (case js_string r of
                       Inl e \<Rightarrow> (Some e, st)
                     | Inr s \<Rightarrow>
                        (let channel = ''agent_run:'' @ s in
                         case map_of (clientSubscriptions g) (clientId ws) of
                           None \<Rightarrow> (None, st)
                         | Some subs \<Rightarrow>
                            (None, (ws, g\<lparr>clientSubscriptions :=
                                           AList.update (clientId ws) (subs - {channel})
                                             (clientSubscriptions g)\<rparr>)))))
              else (None, st))))"

definition ping_branch :: "nat \<Rightarrow> json \<Rightarrow> handler_state \<Rightarrow> js_error option \<times> handler_state" where
  "ping_branch now msg st =
     (case st of (ws, g) \<Rightarrow>
      (case get_prop msg ''type'' of
         Inl e \<Rightarrow> (Some e, st)
       | Inr ty \<Rightarrow>
          if ty = Some (JStr ''ping'') then
            (case ws_send ws (Pong now) of
               Inl e \<Rightarrow> (Some e, st)
             | Inr ws' \<Rightarrow> (None, (ws', g)))
          else (None, st)))"

text \<open>Statements in sequence: a throw skips the statements after it.\<close>

definition and_then ::
  "js_error option \<times> handler_state \<Rightarrow> (handler_state \<Rightarrow> js_error option \<times> handler_state)
     \<Rightarrow> js_error option \<times> handler_state" where
  "and_then r f = (case r of (Some e, st) \<Rightarrow> (Some e, st) | (None, st) \<Rightarrow> f st)"

text \<open>
  \<^verbatim>\<open>ws.on('message')\<close>. \<open>parse\<close> is \<^verbatim>\<open>JSON.parse\<close> (\<open>None\<close> where it throws a
  SyntaxError) and \<open>now\<close> the reading of \<^verbatim>\<open>Date.now()\<close>. The \<^verbatim>\<open>catch\<close> logs the error
  and returns, so the handler always completes, with the socket and the state as the
  \<^verbatim>\<open>try\<close> left them.
\<close>

definition on_message ::
  "(string \<Rightarrow> json option) \<Rightarrow> nat \<Rightarrow> conn \<Rightarrow> gateway \<Rightarrow> string \<Rightarrow> handler_state" where
  "on_message parse now ws g data =
     (case parse data of
        None \<Rightarrow> (ws, g)
      | Some msg \<Rightarrow>
          snd (and_then (and_then (subscribe_branch msg (ws, g)) (unsubscribe_branch msg))
                 (ping_branch now msg)))"

subsection \<open>The close handler\<close>

text \<open>\<^verbatim>\<open>ws.on('close')\<close>: the entry of the connection's client id leaves the registry.\<close>

definition on_close :: "conn \<Rightarrow> gateway \<Rightarrow> gateway" where
  "on_close ws g = g\<lparr>clientSubscriptions := AList.delete (clientId ws) (clientSubscriptions g)\<rparr>"

subsection \<open>Forwarding upstream messages\<close>

text \<open>
  The \<^verbatim>\<open>try\<close>/\<^verbatim>\<open>catch\<close> at the heart of the forwarding handler, for one client and one
  registry entry that holds the channel: parse the payload and send it (written with
  \<^verbatim>\<open>JSON.stringify\<close>); when either step throws, send the raw text instead. A throw of the second send is not caught.
  \<open>t\<close> is the reading of \<^verbatim>\<open>Date.now()\<close> at this send.
\<close>

definition send_event ::
  "(string \<Rightarrow> json option) \<Rightarrow> nat \<Rightarrow> string \<Rightarrow> string \<Rightarrow> conn \<Rightarrow> js_error + conn" where
  "send_event parse t channel message client =
     (case (case parse message of
              None \<Rightarrow> Inl SyntaxError
            | Some parsed \<Rightarrow> ws_send client (AgentEvent channel (on_wire parsed) t)) of
        Inr client' \<Rightarrow> Inr client'
      | Inl e \<Rightarrow> ws_send client (AgentEvent channel (JStr message) t))"

text \<open>
  The inner loop \<^verbatim>\<open>for (const [cid, subs] of clientSubscriptions.entries())\<close>, run for
  one client: every entry whose set has the channel makes one send to that client.
  The entry's \<^verbatim>\<open>cid\<close> is not compared with anything. \<open>clock j\<close> is the time at
  the \<open>j\<close>-th entry.
\<close>

fun send_events ::
  "(string \<Rightarrow> json option) \<Rightarrow> (nat \<Rightarrow> nat) \<Rightarrow> string \<Rightarrow> string
     \<Rightarrow> (string \<times> string set) list \<Rightarrow> conn \<Rightarrow> js_error + conn" where
  "send_events parse clock channel message [] client = Inr client"
| "send_events parse clock channel message ((cid, subs) # entries) client =
     (if channel \<in> subs then
        (case send_event parse (clock 0) channel message client of
           Inl e \<Rightarrow> Inl e
         | Inr client' \<Rightarrow>
             send_events parse (\<lambda>j. clock (Suc j)) channel message entries client')
      else send_events parse (\<lambda>j. clock (Suc j)) channel message entries client)"

text \<open>
  The outer loop \<^verbatim>\<open>wss.clients.forEach\<close>: a client whose \<^verbatim>\<open>readyState\<close> is not 1 is
  skipped. A throw ends the loop and leaves the handler uncaught. \<open>clock i j\<close> is the
  time at the \<open>i\<close>-th client and \<open>j\<close>-th entry.
\<close>

fun forEach_client ::
  "(string \<Rightarrow> json option) \<Rightarrow> (nat \<Rightarrow> nat \<Rightarrow> nat) \<Rightarrow> string \<Rightarrow> string
     \<Rightarrow> (string \<times> string set) list \<Rightarrow> conn list \<Rightarrow> js_error + conn list" where
  "forEach_client parse clock channel message entries [] = Inr []"
| "forEach_client parse clock channel message entries (client # rest) =
     (case (if state_code (readyState client) = 1
            then send_events parse (clock 0) channel message entries client
            else Inr client) of
        Inl e \<Rightarrow> Inl e
      | Inr client' \<Rightarrow>
         (case forEach_client parse (\<lambda>i. clock (Suc i)) channel message entries rest of
            Inl e \<Rightarrow> Inl e
          | Inr rest' \<Rightarrow> Inr (client' # rest')))"

text \<open>\<^verbatim>\<open>redisSub.on('message', (channel, message) => ...)\<close>, the forwarding handler.\<close>

definition redis_on_message ::
  "(string \<Rightarrow> json option) \<Rightarrow> (nat \<Rightarrow> nat \<Rightarrow> nat) \<Rightarrow> gateway \<Rightarrow> string \<Rightarrow> string
     \<Rightarrow> js_error + gateway" where
  "redis_on_message parse clock g channel message =
     (case forEach_client parse clock channel message (clientSubscriptions g) (clients g) of
        Inl e \<Rightarrow> Inl e
      | Inr cs \<Rightarrow> Inr (g\<lparr>clients := cs\<rparr>))"

text \<open>
  A publication on a channel. The handler is registered only when \<^verbatim>\<open>redisSub\<close> exists,
  and Redis hands a publication to a subscriber only on the channels it has subscribed.
\<close>

definition publish ::
  "(string \<Rightarrow> json option) \<Rightarrow> (nat \<Rightarrow> nat \<Rightarrow> nat) \<Rightarrow> gateway \<Rightarrow> string \<Rightarrow> string
     \<Rightarrow> js_error + gateway" where
  "publish parse clock g channel message =
     (if channel \<in> upstream g then redis_on_message parse clock g channel message
      else Inr g)"

subsection \<open>The gateway as an event loop\<close>

text \<open>
  What can happen to the gateway: a connection is accepted (with the client id drawn
  and the time), the socket at a position of \<^verbatim>\<open>wss.clients\<close> receives a frame or closes
  (the library then takes it out of \<^verbatim>\<open>wss.clients\<close> before the close handler runs),
  or something is published upstream.
\<close>

datatype event =
    Connection string nat
  | Frame nat string nat
  | Close nat
  | Publish string string

fun step ::
  "(string \<Rightarrow> json option) \<Rightarrow> (nat \<Rightarrow> nat \<Rightarrow> nat) \<Rightarrow> gateway \<Rightarrow> event \<Rightarrow> js_error + gateway" where
  "step parse clock g (Connection cid now) = on_connection g cid now"
| "step parse clock g (Frame i data now) =
     (if i < length (clients g) then
        (case on_message parse now (clients g ! i) g data of
           (ws', g') \<Rightarrow> Inr (g'\<lparr>clients := (clients g')[i := ws']\<rparr>))
      else Inr g)"
| "step parse clock g (Close i) =
     (if i < length (clients g) then
        Inr (on_close (clients g ! i)
               (g\<lparr>clients := take i (clients g) @ drop (Suc i) (clients g)\<rparr>))
      else Inr g)"
| "step parse clock g (Publish channel message) = publish parse clock g channel message"

fun run ::
  "(string \<Rightarrow> json option) \<Rightarrow> (nat \<Rightarrow> nat \<Rightarrow> nat) \<Rightarrow> gateway \<Rightarrow> event list \<Rightarrow> js_error + gateway" where
  "run parse clock g [] = Inr g"
| "run parse clock g (ev # evs) =
     (case step parse clock g ev of
        Inl e \<Rightarrow> Inl e
      | Inr g' \<Rightarrow> run parse clock g' evs)"

section \<open>The browser's WebSocket service\<close>

text \<open>
  \<^verbatim>\<open>WebSocketService\<close> keeps \<^verbatim>\<open>handlers\<close>, a Map from event name to the Set of
  handlers registered under it, in insertion order. A handler is a callback of the
  caller; it is known here by a number, and \<open>throws h d\<close> says whether calling handler
  \<open>h\<close> on \<open>d\<close> throws.
\<close>

record ws_service =
  handlers :: "(string \<times> nat list) list"

definition on :: "ws_service \<Rightarrow> string \<Rightarrow> nat \<Rightarrow> ws_service" where
  "on svc ev h =
     (let hs = (case map_of (handlers svc) ev of None \<Rightarrow> [] | Some hs \<Rightarrow> hs)
      in svc\<lparr>handlers :=
           AList.update ev (if h \<in> set hs then hs else hs @ [h]) (handlers svc)\<rparr>)"

definition off :: "ws_service \<Rightarrow> string \<Rightarrow> nat \<Rightarrow> ws_service" where
  "off svc ev h =
     (case map_of (handlers svc) ev of
        None \<Rightarrow> svc
      | Some hs \<Rightarrow> svc\<lparr>handlers := AList.update ev (removeAll h hs) (handlers svc)\<rparr>)"

text \<open>
  Calling the handlers of a set in order. The result is the calls made, each a handler
  with its argument, and whether one of them threw (which ends the calls). A handler is
  taken not to register or remove handlers while it runs.
\<close>

fun call_all :: "(nat \<Rightarrow> json \<Rightarrow> bool) \<Rightarrow> nat list \<Rightarrow> json \<Rightarrow> (nat \<times> json) list \<times> bool" where
  "call_all throws [] d = ([], False)"
| "call_all throws (h # hs) d =
     (if throws h d then ([(h, d)], True)
      else (case call_all throws hs d of (calls, thrown) \<Rightarrow> ((h, d) # calls, thrown)))"

definition emit ::
  "(nat \<Rightarrow> json \<Rightarrow> bool) \<Rightarrow> ws_service \<Rightarrow> string \<Rightarrow> json \<Rightarrow> (nat \<times> json) list \<times> bool" where
  "emit throws svc ev d =
     (case map_of (handlers svc) ev of
        None \<Rightarrow> ([], False)
      | Some hs \<Rightarrow> call_all throws hs d)"

text \<open>
  \<^verbatim>\<open>ws.onmessage\<close>: the handler calls it makes for one frame, in order. Every throw
  inside (of \<^verbatim>\<open>JSON.parse\<close>, of reading \<^verbatim>\<open>data.type\<close> on \<^verbatim>\<open>null\<close>, of a handler) ends
  the \<^verbatim>\<open>try\<close> and is dropped by the \<^verbatim>\<open>catch\<close>.
\<close>

definition onmessage ::
  "(string \<Rightarrow> json option) \<Rightarrow> (nat \<Rightarrow> json \<Rightarrow> bool) \<Rightarrow> ws_service \<Rightarrow> string
     \<Rightarrow> (nat \<times> json) list" where
  "onmessage parse throws svc event_data =
     (case parse event_data of
        None \<Rightarrow> []
      | Some d \<Rightarrow>
         (case emit throws svc ''message'' d of
            (calls1, True) \<Rightarrow> calls1
          | (calls1, False) \<Rightarrow>
             (case get_prop d ''type'' of
                Inl e \<Rightarrow> calls1
              | Inr ty \<Rightarrow>
                 (case get_prop d ''data'' of
                    Inl e \<Rightarrow> calls1
                  | Inr dd \<Rightarrow>
                     if ty = Some (JStr ''agent_event'') \<and> truthy dd then
                       (case dd of
                          None \<Rightarrow> calls1
                        | Some inner \<Rightarrow>
                           (case get_prop inner ''run_id'' of
                              Inl e \<Rightarrow> calls1
                            | Inr runId \<Rightarrow>
                               (case (case runId of
                                        None \<Rightarrow> ([], False)
                                      | Some r \<Rightarrow>
                                          if truthy runId
                                          then (case js_string r of
                                                  Inl e \<Rightarrow> ([], True)
                                                | Inr s \<Rightarrow> emit throws svc (''run:'' @ s) d)
                                          else ([], False)) of
                                  (calls2, True) \<Rightarrow> calls1 @ calls2
                                | (calls2, False) \<Rightarrow>
                                   (case get_prop inner ''project_id'' of
                                      Inl e \<Rightarrow> calls1 @ calls2
                                    | Inr projectId \<Rightarrow>
                                       (case projectId of
                                          None \<Rightarrow> calls1 @ calls2
                                        | Some p \<Rightarrow>
                                           if truthy projectId
                                           then (case js_string p of
                                                   Inl e \<Rightarrow> calls1 @ calls2
                                                 | Inr s \<Rightarrow>
                                                    calls1 @ calls2
                                                    @ fst (emit throws svc (''project:'' @ s) d))
                                           else calls1 @ calls2)))))
                     else calls1))))"

section \<open>Notions used to state the properties\<close>

text \<open>
  A message is recognised when the condition of one of the three \<^verbatim>\<open>if\<close> statements
  of the message handler holds for it.
\<close>

definition recognised :: "json \<Rightarrow> bool" where
  "recognised msg =
     (case get_prop msg ''type'' of
        Inl e \<Rightarrow> False
      | Inr ty \<Rightarrow>
          ty = Some (JStr ''ping'') \<or>
          ((ty = Some (JStr ''subscribe'') \<or> ty = Some (JStr ''unsubscribe'')) \<and>
           (case get_prop msg ''run_id'' of Inl e \<Rightarrow> False | Inr rid \<Rightarrow> truthy rid)))"

text \<open>
  The value of \<^verbatim>\<open>JSON.parse\<close> on the frames and payloads of the examples below; every
  other text counts as malformed there. The theorems hold for any parser.
\<close>

definition sample_parse :: "string \<Rightarrow> json option" where
  \<open>sample_parse = map_of
     [(''{"type":"subscribe","run_id":"r1"}'',
         JObj [(''type'', JStr ''subscribe''), (''run_id'', JStr ''r1'')]),
      (''{"type":"unsubscribe","run_id":"r1"}'',
         JObj [(''type'', JStr ''unsubscribe''), (''run_id'', JStr ''r1'')]),
      (''{"type":"ping"}'', JObj [(''type'', JStr ''ping'')]),
      (''{"type":"hello"}'', JObj [(''type'', JStr ''hello'')]),
      (''{"x":1}'', JObj [(''x'', JNum ''1'')]),
      (''{"type":"agent_event","channel":"agent_run:r1","data":{"run_id":"r1"},"timestamp":7}'',
         JObj [(''type'', JStr ''agent_event''), (''channel'', JStr ''agent_run:r1''),
               (''data'', JObj [(''run_id'', JStr ''r1'')]), (''timestamp'', JNum ''7'')]),
      (''{"v":-1e999}'', JObj [(''v'', JNum ''-Infinity'')]),
      (''{"type":"agent_event","data":{"run_id":["r1"]}}'',
         JObj [(''type'', JStr ''agent_event''),
               (''data'', JObj [(''run_id'', JArr [JStr ''r1''])])])]\<close>

section \<open>Properties of the message handler\<close>

lemma get_prop_total: "get_prop msg k = Inr v \<Longrightarrow> \<exists>v'. get_prop msg k' = Inr v'"
  by (cases msg) auto

lemma on_wire_finite: "finite_json v \<Longrightarrow> on_wire v = v"
  by (induction v rule: on_wire.induct) (auto intro!: map_idI)

lemmas gateway_defs = on_connection_def on_message_def subscribe_branch_def
  unsubscribe_branch_def ping_branch_def and_then_def publish_def upstream_def
  redis_on_message_def startup_def sample_parse_def on_close_def send_event_def
  interest_def non_finite_def Let_def

text \<open>
  Claim C7. A frame whose parsed \<^verbatim>\<open>type\<close> is \<^verbatim>\<open>"ping"\<close> leaves the module state
  (so the channel set of every connection) as it was. Received on an open connection,
  as frames are, it is answered on that connection with \<^verbatim>\<open>{type:'pong', timestamp}\<close>,
  the timestamp being the reading of the clock, and nothing else is sent.
\<close>

theorem ping_pong:
  assumes "parse data = Some msg"
    and "get_prop msg ''type'' = Inr (Some (JStr ''ping''))"
  shows "snd (on_message parse now ws g data) = g \<and>
     (readyState ws = OPEN \<longrightarrow>
        fst (on_message parse now ws g data) = ws\<lparr>sent := sent ws @ [Pong now]\<rparr>)"
proof -
  obtain rid where rid: "get_prop msg ''run_id'' = Inr rid"
    using get_prop_total[OF assms(2)] by blast
  have s: "subscribe_branch msg (ws, g) = (None, (ws, g))"
    by (simp add: subscribe_branch_def assms(2) rid)
  have u: "unsubscribe_branch msg (ws, g) = (None, (ws, g))"
    by (simp add: unsubscribe_branch_def assms(2) rid)
  have p: "snd (snd (ping_branch now msg (ws, g))) = g \<and>
     (readyState ws = OPEN \<longrightarrow>
        fst (snd (ping_branch now msg (ws, g))) = ws\<lparr>sent := sent ws @ [Pong now]\<rparr>)"
    by (cases "readyState ws") (simp_all add: ping_branch_def assms(2))
  have "on_message parse now ws g data = snd (ping_branch now msg (ws, g))"
    by (simp add: on_message_def assms(1) and_then_def s u)
  with p show ?thesis by simp
qed

theorem ping_pong_witness:
  \<open>sample_parse ''{"type":"ping"}'' = Some (JObj [(''type'', JStr ''ping'')]) \<and>
   on_message sample_parse 42
     \<lparr>clientId = ''a'', readyState = OPEN, sent = [Connected ''a'' 1]\<rparr>
     \<lparr>clients = [], clientSubscriptions = [(''a'', {''agent_run:r1''})],
        redisSub = Some [''agent_run:r1'']\<rparr>
     ''{"type":"ping"}''
   = (\<lparr>clientId = ''a'', readyState = OPEN, sent = [Connected ''a'' 1, Pong 42]\<rparr>,
      \<lparr>clients = [], clientSubscriptions = [(''a'', {''agent_run:r1''})],
         redisSub = Some [''agent_run:r1'']\<rparr>)\<close>
proof -
  have h1: \<open>sample_parse ''{"type":"ping"}'' = Some (JObj [(''type'', JStr ''ping'')])\<close>
    by (simp add: sample_parse_def)
  have h2: "get_prop (JObj [(''type'', JStr ''ping'')]) ''type'' = Inr (Some (JStr ''ping''))"
    by simp
  let ?ws = "\<lparr>clientId = ''a'', readyState = OPEN, sent = [Connected ''a'' 1]\<rparr>"
  let ?g = "\<lparr>clients = [], clientSubscriptions = [(''a'', {''agent_run:r1''})],
        redisSub = Some [''agent_run:r1'']\<rparr>"
  from ping_pong[where parse = sample_parse and now = 42 and ws = "?ws" and g = "?g",
      OF h1 h2]
  have \<open>on_message sample_parse 42 ?ws ?g ''{"type":"ping"}''
      = (?ws\<lparr>sent := sent ?ws @ [Pong 42]\<rparr>, ?g)\<close>
    by (simp add: prod_eq_iff)
  with h1 show ?thesis by simp
qed

text \<open>
  Claim C9. A frame that is not valid JSON, or whose parsed value is not recognised
  (it is \<^verbatim>\<open>null\<close>, or its \<^verbatim>\<open>type\<close> is none of \<^verbatim>\<open>"subscribe"\<close>, \<^verbatim>\<open>"unsubscribe"\<close>,
  \<^verbatim>\<open>"ping"\<close>, or it is a subscribe or unsubscribe without a truthy \<^verbatim>\<open>run_id\<close>), is
  ignored as a whole: the handler completes with the socket as it was (nothing sent,
  the same \<^verbatim>\<open>readyState\<close>) and the module state as it was.
\<close>

theorem unrecognised_frame_ignored:
  assumes "parse data = None \<or> (\<exists>msg. parse data = Some msg \<and> \<not> recognised msg)"
  shows "on_message parse now ws g data = (ws, g)"
proof (cases "parse data")
  case None
  then show ?thesis by (simp add: on_message_def)
next
  case (Some msg)
  with assms have nr: "\<not> recognised msg" by auto
  show ?thesis
  proof (cases "get_prop msg ''type''")
    case (Inl e)
    then show ?thesis
      by (simp add: on_message_def Some and_then_def subscribe_branch_def)
  next
    case (Inr ty)
    then obtain rid where rid: "get_prop msg ''run_id'' = Inr rid"
      using get_prop_total by blast
    from nr Inr rid have c1: "ty \<noteq> Some (JStr ''ping'')"
      and c2: "ty = Some (JStr ''subscribe'') \<Longrightarrow> \<not> truthy rid"
      and c3: "ty = Some (JStr ''unsubscribe'') \<Longrightarrow> \<not> truthy rid"
      by (auto simp: recognised_def)
    have s: "subscribe_branch msg (ws, g) = (None, (ws, g))"
      using c2 by (auto simp add: subscribe_branch_def Inr rid)
    have u: "unsubscribe_branch msg (ws, g) = (None, (ws, g))"
      using c3 by (auto simp add: unsubscribe_branch_def Inr rid)
    have p: "ping_branch now msg (ws, g) = (None, (ws, g))"
      using c1 by (simp add: ping_branch_def Inr)
    show ?thesis
      by (simp add: on_message_def Some and_then_def s u p)
  qed
qed

theorem unrecognised_frame_ignored_witness:
  \<open>sample_parse ''{"type":"hello"}'' = Some (JObj [(''type'', JStr ''hello'')]) \<and>
   \<not> recognised (JObj [(''type'', JStr ''hello'')]) \<and>
   on_message sample_parse 42
     \<lparr>clientId = ''a'', readyState = OPEN, sent = [Connected ''a'' 1]\<rparr>
     \<lparr>clients = [], clientSubscriptions = [(''a'', {''agent_run:r1''})],
        redisSub = Some [''agent_run:r1'']\<rparr>
     ''{"type":"hello"}''
   = (\<lparr>clientId = ''a'', readyState = OPEN, sent = [Connected ''a'' 1]\<rparr>,
      \<lparr>clients = [], clientSubscriptions = [(''a'', {''agent_run:r1''})],
         redisSub = Some [''agent_run:r1'']\<rparr>)\<close>
proof -
  have h1: \<open>sample_parse ''{"type":"hello"}'' = Some (JObj [(''type'', JStr ''hello'')])\<close>
    by (simp add: sample_parse_def)
  have h2: "\<not> recognised (JObj [(''type'', JStr ''hello'')])"
    by (simp add: recognised_def)
  have h: \<open>sample_parse ''{"type":"hello"}'' = None \<or>
      (\<exists>msg. sample_parse ''{"type":"hello"}'' = Some msg \<and> \<not> recognised msg)\<close>
    using h1 h2 by simp
  show ?thesis
    using h1 h2 unrecognised_frame_ignored[where parse = sample_parse and now = 42, OF h]
    by simp
qed

section \<open>Properties of forwarding\<close>

lemma state_code_open: "(state_code s = Suc 0) = (s = OPEN)"
  by (cases s) auto

lemma send_event_open:
  assumes "readyState c = OPEN"
  shows "send_event parse t ch m c =
     Inr (c\<lparr>sent := sent c @ [AgentEvent ch (case parse m of None \<Rightarrow> JStr m | Some v \<Rightarrow> on_wire v) t]\<rparr>)"
  using assms by (cases "parse m") (simp_all add: send_event_def)

lemma send_events_open:
  assumes "readyState c = OPEN"
  shows "\<exists>ts. length ts = length (filter (\<lambda>(cid, subs). ch \<in> subs) entries) \<and>
     send_events parse clock ch m entries c =
       Inr (c\<lparr>sent := sent c @ map (AgentEvent ch (case parse m of None \<Rightarrow> JStr m | Some v \<Rightarrow> on_wire v)) ts\<rparr>)"
  using assms
proof (induction entries arbitrary: c clock)
  case Nil
  then show ?case by simp
next
  case (Cons e entries)
  obtain cid subs where e: "e = (cid, subs)" by (cases e)
  let ?d = "case parse m of None \<Rightarrow> JStr m | Some v \<Rightarrow> on_wire v"
  show ?case
  proof (cases "ch \<in> subs")
    case False
    from Cons.IH[OF Cons.prems, of "\<lambda>j. clock (Suc j)"] show ?thesis
      by (simp add: e False)
  next
    case True
    let ?c1 = "c\<lparr>sent := sent c @ [AgentEvent ch ?d (clock 0)]\<rparr>"
    have o1: "readyState ?c1 = OPEN" using Cons.prems by simp
    from Cons.IH[OF o1, of "\<lambda>j. clock (Suc j)"] obtain ts where
      ts: "length ts = length (filter (\<lambda>(cid, subs). ch \<in> subs) entries)"
      and r: "send_events parse (\<lambda>j. clock (Suc j)) ch m entries ?c1 =
          Inr (?c1\<lparr>sent := sent ?c1 @ map (AgentEvent ch ?d) ts\<rparr>)"
      by blast
    have "send_events parse clock ch m (e # entries) c =
        Inr (c\<lparr>sent := sent c @ map (AgentEvent ch ?d) (clock 0 # ts)\<rparr>)"
      by (simp add: e True send_event_open[OF Cons.prems] r)
    moreover have "length (clock 0 # ts) = length (filter (\<lambda>(cid, subs). ch \<in> subs) (e # entries))"
      by (simp add: e True ts)
    ultimately show ?thesis by blast
  qed
qed

lemma forEach_client_delivers:
  "\<exists>cs'. forEach_client parse clock ch m entries cs = Inr cs' \<and>
     list_all2 (\<lambda>c c'. if readyState c = OPEN
        then \<exists>ts. length ts = length (filter (\<lambda>(cid, subs). ch \<in> subs) entries) \<and>
               c' = c\<lparr>sent := sent c @ map (AgentEvent ch (case parse m of None \<Rightarrow> JStr m | Some v \<Rightarrow> on_wire v)) ts\<rparr>
        else c' = c) cs cs'"
proof (induction cs arbitrary: clock)
  case Nil
  then show ?case by simp
next
  case (Cons c cs)
  from Cons.IH[of "\<lambda>i. clock (Suc i)"] obtain cs' where
    r: "forEach_client parse (\<lambda>i. clock (Suc i)) ch m entries cs = Inr cs'"
    and l: "list_all2 (\<lambda>c c'. if readyState c = OPEN
        then \<exists>ts. length ts = length (filter (\<lambda>(cid, subs). ch \<in> subs) entries) \<and>
               c' = c\<lparr>sent := sent c @ map (AgentEvent ch (case parse m of None \<Rightarrow> JStr m | Some v \<Rightarrow> on_wire v)) ts\<rparr>
        else c' = c) cs cs'"
    by blast
  show ?case
  proof (cases "readyState c = OPEN")
    case True
    from send_events_open[OF True, of ch entries parse "clock 0" m] obtain ts where
      ts: "length ts = length (filter (\<lambda>(cid, subs). ch \<in> subs) entries)"
      and s: "send_events parse (clock 0) ch m entries c =
        Inr (c\<lparr>sent := sent c @ map (AgentEvent ch (case parse m of None \<Rightarrow> JStr m | Some v \<Rightarrow> on_wire v)) ts\<rparr>)"
      by blast
    show ?thesis
      using True ts l by (simp add: state_code_open s r) blast
  next
    case False
    then show ?thesis
      using l by (simp add: state_code_open r)
  qed
qed

lemma redis_on_message_delivers:
  "\<exists>g'. redis_on_message parse clock g ch m = Inr g' \<and>
     clientSubscriptions g' = clientSubscriptions g \<and> redisSub g' = redisSub g \<and>
     length (clients g') = length (clients g) \<and>
     (\<forall>i<length (clients g). readyState (clients g ! i) = OPEN \<longrightarrow>
        (\<exists>ts. length ts = interest g ch \<and>
               clients g' ! i = (clients g ! i)\<lparr>sent := sent (clients g ! i) @
                  map (AgentEvent ch (case parse m of None \<Rightarrow> JStr m | Some v \<Rightarrow> on_wire v)) ts\<rparr>)) \<and>
     (\<forall>i<length (clients g). readyState (clients g ! i) \<noteq> OPEN \<longrightarrow>
        clients g' ! i = clients g ! i)"
proof -
  from forEach_client_delivers[of parse clock ch m "clientSubscriptions g" "clients g"]
  obtain cs' where r: "forEach_client parse clock ch m (clientSubscriptions g) (clients g) = Inr cs'"
    and l: "list_all2 (\<lambda>c c'. if readyState c = OPEN
        then \<exists>ts. length ts = length (filter (\<lambda>(cid, subs). ch \<in> subs) (clientSubscriptions g)) \<and>
               c' = c\<lparr>sent := sent c @ map (AgentEvent ch (case parse m of None \<Rightarrow> JStr m | Some v \<Rightarrow> on_wire v)) ts\<rparr>
        else c' = c) (clients g) cs'"
    by blast
  have len: "length cs' = length (clients g)"
    using l by (simp add: list_all2_lengthD)
  have nth: "\<And>i. i < length (clients g) \<Longrightarrow>
        (if readyState (clients g ! i) = OPEN
        then \<exists>ts. length ts = interest g ch \<and>
               cs' ! i = (clients g ! i)\<lparr>sent := sent (clients g ! i) @
                  map (AgentEvent ch (case parse m of None \<Rightarrow> JStr m | Some v \<Rightarrow> on_wire v)) ts\<rparr>
        else cs' ! i = clients g ! i)"
    using list_all2_nthD[OF l] unfolding interest_def by blast
  have a: "\<forall>i<length (clients g). readyState (clients g ! i) = OPEN \<longrightarrow>
        (\<exists>ts. length ts = interest g ch \<and>
               cs' ! i = (clients g ! i)\<lparr>sent := sent (clients g ! i) @
                  map (AgentEvent ch (case parse m of None \<Rightarrow> JStr m | Some v \<Rightarrow> on_wire v)) ts\<rparr>)"
    using nth by (simp split: if_splits)
  have b: "\<forall>i<length (clients g). readyState (clients g ! i) \<noteq> OPEN \<longrightarrow> cs' ! i = clients g ! i"
    using nth by (simp split: if_splits)
  show ?thesis
    using len a b by (simp add: redis_on_message_def r)
qed

lemma interest_pos:
  assumes "map_of (clientSubscriptions g) cid = Some subs" and "ch \<in> subs"
  shows "0 < interest g ch"
proof -
  from assms(1) have "(cid, subs) \<in> set (clientSubscriptions g)" by (rule map_of_SomeD)
  with assms(2) have "(cid, subs) \<in> set (filter (\<lambda>(cid, subs). ch \<in> subs) (clientSubscriptions g))"
    by simp
  then show ?thesis unfolding interest_def by (simp only: length_pos_if_in_set)
qed

text \<open>
  Claim C8, as the program has it. Forwarding does not depend on the payload being
  JSON. For every payload the handler completes without a throw, and every frame it
  sends, to any connection, is \<^verbatim>\<open>{type:'agent_event', channel, data, timestamp}\<close>. When
  the payload does not parse, \<^verbatim>\<open>data\<close> is the raw text. When it parses, \<^verbatim>\<open>data\<close> is the
  parsed value as \<^verbatim>\<open>JSON.stringify\<close> writes it: the parsed value itself when it holds no
  number that is not finite, and otherwise the parsed value with \<^verbatim>\<open>null\<close> in place of
  each such number. An open connection is sent one such frame for each registry entry
  that holds the channel.
\<close>

theorem forwarding_total_in_payload:
  "(\<exists>g'. redis_on_message parse clock g channel message = Inr g' \<and>
     length (clients g') = length (clients g) \<and>
     (\<forall>i<length (clients g). \<exists>ts.
        sent (clients g' ! i) = sent (clients g ! i) @
          map (AgentEvent channel
                 (case parse message of None \<Rightarrow> JStr message | Some parsed \<Rightarrow> on_wire parsed)) ts \<and>
        (readyState (clients g ! i) = OPEN \<longrightarrow> length ts = interest g channel))) \<and>
   (\<forall>parsed. parse message = Some parsed \<and> finite_json parsed \<longrightarrow> on_wire parsed = parsed)"
proof -
  from redis_on_message_delivers[of parse clock g channel message] obtain g' where
    r: "redis_on_message parse clock g channel message = Inr g'"
    and len: "length (clients g') = length (clients g)"
    and a: "\<forall>i<length (clients g). readyState (clients g ! i) = OPEN \<longrightarrow>
        (\<exists>ts. length ts = interest g channel \<and>
               clients g' ! i = (clients g ! i)\<lparr>sent := sent (clients g ! i) @
                  map (AgentEvent channel (case parse message of None \<Rightarrow> JStr message | Some v \<Rightarrow> on_wire v)) ts\<rparr>)"
    and b: "\<forall>i<length (clients g). readyState (clients g ! i) \<noteq> OPEN \<longrightarrow>
        clients g' ! i = clients g ! i"
    by blast
  have "\<exists>ts. sent (clients g' ! i) = sent (clients g ! i) @
          map (AgentEvent channel
                 (case parse message of None \<Rightarrow> JStr message | Some parsed \<Rightarrow> on_wire parsed)) ts \<and>
        (readyState (clients g ! i) = OPEN \<longrightarrow> length ts = interest g channel)"
    if i: "i < length (clients g)" for i
  proof (cases "readyState (clients g ! i) = OPEN")
    case True
    with a i obtain ts where "length ts = interest g channel"
      and "clients g' ! i = (clients g ! i)\<lparr>sent := sent (clients g ! i) @
                  map (AgentEvent channel (case parse message of None \<Rightarrow> JStr message | Some v \<Rightarrow> on_wire v)) ts\<rparr>"
      by blast
    then show ?thesis by (intro exI[of _ ts]) simp
  next
    case False
    with b i have "clients g' ! i = clients g ! i" by blast
    with False show ?thesis by (intro exI[of _ "[]"]) simp
  qed
  with r len on_wire_finite show ?thesis by blast
qed

theorem forwarding_total_in_payload_witness:
  \<open>sample_parse ''{"x":1}'' = Some (JObj [(''x'', JNum ''1'')]) \<and>
   finite_json (JObj [(''x'', JNum ''1'')]) \<and>
   (\<exists>g'. redis_on_message sample_parse (\<lambda>i j. 7)
       \<lparr>clients = [\<lparr>clientId = ''a'', readyState = OPEN, sent = [Connected ''a'' 1]\<rparr>],
          clientSubscriptions = [(''a'', {''agent_run:r1''})],
          redisSub = Some [''agent_run:r1'']\<rparr>
       ''agent_run:r1'' ''{"x":1}'' = Inr g' \<and>
     length (clients g') = 1 \<and>
     (\<exists>ts. sent (clients g' ! 0) =
        Connected ''a'' 1 # map (AgentEvent ''agent_run:r1'' (JObj [(''x'', JNum ''1'')])) ts \<and>
        length ts = 1))\<close>
proof -
  let ?g = "\<lparr>clients = [\<lparr>clientId = ''a'', readyState = OPEN, sent = [Connected ''a'' 1]\<rparr>],
          clientSubscriptions = [(''a'', {''agent_run:r1''})],
          redisSub = Some [''agent_run:r1'']\<rparr>"
  let ?p = "JObj [(''x'', JNum ''1'')]"
  have h1: \<open>sample_parse ''{"x":1}'' = Some ?p\<close>
    by (simp add: sample_parse_def)
  have h2: "finite_json ?p"
    by (simp add: non_finite_def)
  from forwarding_total_in_payload[of sample_parse "\<lambda>i j. 7" ?g "''agent_run:r1''" \<open>''{"x":1}''\<close>]
  obtain g' where r: \<open>redis_on_message sample_parse (\<lambda>i j. 7) ?g ''agent_run:r1'' ''{"x":1}'' = Inr g'\<close>
    and len: "length (clients g') = length (clients ?g)"
    and n: \<open>\<forall>i<length (clients ?g). \<exists>ts.
        sent (clients g' ! i) = sent (clients ?g ! i) @
          map (AgentEvent ''agent_run:r1''
                 (case sample_parse ''{"x":1}'' of None \<Rightarrow> JStr ''{"x":1}''
                  | Some parsed \<Rightarrow> on_wire parsed)) ts \<and>
        (readyState (clients ?g ! i) = OPEN \<longrightarrow> length ts = interest ?g ''agent_run:r1'')\<close>
    and f: \<open>\<forall>parsed. sample_parse ''{"x":1}'' = Some parsed \<and> finite_json parsed \<longrightarrow>
        on_wire parsed = parsed\<close>
    by blast
  from f h1 h2 have w: "on_wire ?p = ?p" by blast
  from len have l: "length (clients g') = 1" by simp
  from n[rule_format, of 0] have o: "\<exists>ts. sent (clients g' ! 0) =
        Connected ''a'' 1 # map (AgentEvent ''agent_run:r1'' ?p) ts \<and>
        length ts = 1"
    unfolding h1 option.case w by (simp add: interest_def)
  from h1 h2 r l o show ?thesis by blast
qed

theorem non_finite_number_forwarded_as_null:
  \<open>sample_parse ''{"v":-1e999}'' = Some (JObj [(''v'', JNum ''-Infinity'')]) \<and>
   redis_on_message sample_parse (\<lambda>i j. 7)
       \<lparr>clients = [\<lparr>clientId = ''a'', readyState = OPEN, sent = [Connected ''a'' 1]\<rparr>],
          clientSubscriptions = [(''a'', {''agent_run:r1''})],
          redisSub = Some [''agent_run:r1'']\<rparr>
       ''agent_run:r1'' ''{"v":-1e999}''
   = Inr \<lparr>clients = [\<lparr>clientId = ''a'', readyState = OPEN,
                        sent = [Connected ''a'' 1,
                                AgentEvent ''agent_run:r1'' (JObj [(''v'', JNull)]) 7]\<rparr>],
           clientSubscriptions = [(''a'', {''agent_run:r1''})],
           redisSub = Some [''agent_run:r1'']\<rparr> \<and>
   JObj [(''v'', JNull)] \<noteq> JObj [(''v'', JNum ''-Infinity'')]\<close>
  by (simp add: gateway_defs)

text \<open>
  Claim C4. Whatever state each connection is in, the forwarding handler completes
  without a throw. A connection that is not open (closing, closed, or not yet open) is
  passed over: nothing is sent to it and it is left as it was. Every open connection
  whose registry entry holds the channel is sent the message, whatever the state of the
  other connections.
\<close>

theorem delivery_failure_isolated:
  "\<exists>g'. redis_on_message parse clock g channel message = Inr g' \<and>
     length (clients g') = length (clients g) \<and>
     (\<forall>i<length (clients g).
        (readyState (clients g ! i) \<noteq> OPEN \<longrightarrow> clients g' ! i = clients g ! i) \<and>
        (readyState (clients g ! i) = OPEN \<and>
         (\<exists>subs. map_of (clientSubscriptions g) (clientId (clients g ! i)) = Some subs \<and>
                 channel \<in> subs) \<longrightarrow>
         (\<exists>t ts. sent (clients g' ! i) = sent (clients g ! i) @
            map (AgentEvent channel
                   (case parse message of None \<Rightarrow> JStr message | Some parsed \<Rightarrow> on_wire parsed))
              (t # ts))))"
proof -
  from redis_on_message_delivers[of parse clock g channel message] obtain g' where
    r: "redis_on_message parse clock g channel message = Inr g'"
    and len: "length (clients g') = length (clients g)"
    and a: "\<forall>i<length (clients g). readyState (clients g ! i) = OPEN \<longrightarrow>
        (\<exists>ts. length ts = interest g channel \<and>
               clients g' ! i = (clients g ! i)\<lparr>sent := sent (clients g ! i) @
                  map (AgentEvent channel (case parse message of None \<Rightarrow> JStr message | Some v \<Rightarrow> on_wire v)) ts\<rparr>)"
    and b: "\<forall>i<length (clients g). readyState (clients g ! i) \<noteq> OPEN \<longrightarrow>
        clients g' ! i = clients g ! i"
    by blast
  have "\<exists>t ts. sent (clients g' ! i) = sent (clients g ! i) @
            map (AgentEvent channel
                   (case parse message of None \<Rightarrow> JStr message | Some parsed \<Rightarrow> on_wire parsed))
              (t # ts)"
    if i: "i < length (clients g)" and o: "readyState (clients g ! i) = OPEN"
      and s: "map_of (clientSubscriptions g) (clientId (clients g ! i)) = Some subs"
      and c: "channel \<in> subs" for i subs
  proof -
    from a i o obtain ts where l: "length ts = interest g channel"
      and e: "clients g' ! i = (clients g ! i)\<lparr>sent := sent (clients g ! i) @
                  map (AgentEvent channel (case parse message of None \<Rightarrow> JStr message | Some v \<Rightarrow> on_wire v)) ts\<rparr>"
      by blast
    from interest_pos[OF s c] l obtain t ts' where "ts = t # ts'"
      by (cases ts) auto
    with e show ?thesis by (intro exI[of _ t] exI[of _ ts']) simp
  qed
  with r len b show ?thesis by blast
qed

theorem delivery_failure_isolated_witness:
  \<open>\<exists>g'. redis_on_message sample_parse (\<lambda>i j. 7)
       \<lparr>clients = [\<lparr>clientId = ''b'', readyState = CLOSED, sent = [Connected ''b'' 1]\<rparr>,
                   \<lparr>clientId = ''a'', readyState = OPEN, sent = [Connected ''a'' 2]\<rparr>],
          clientSubscriptions = [(''b'', {''agent_run:r1''}), (''a'', {''agent_run:r1''})],
          redisSub = Some [''agent_run:r1'', ''agent_run:r1'']\<rparr>
       ''agent_run:r1'' ''{"x":1}'' = Inr g' \<and>
     clients g' ! 0 = \<lparr>clientId = ''b'', readyState = CLOSED, sent = [Connected ''b'' 1]\<rparr> \<and>
     (\<exists>t ts. sent (clients g' ! 1) =
        Connected ''a'' 2 # map (AgentEvent ''agent_run:r1'' (JObj [(''x'', JNum ''1'')])) (t # ts))\<close>
proof -
  let ?g = "\<lparr>clients = [\<lparr>clientId = ''b'', readyState = CLOSED, sent = [Connected ''b'' 1]\<rparr>,
                   \<lparr>clientId = ''a'', readyState = OPEN, sent = [Connected ''a'' 2]\<rparr>],
          clientSubscriptions = [(''b'', {''agent_run:r1''}), (''a'', {''agent_run:r1''})],
          redisSub = Some [''agent_run:r1'', ''agent_run:r1'']\<rparr>"
  from delivery_failure_isolated[of sample_parse "\<lambda>i j. 7" ?g "''agent_run:r1''" \<open>''{"x":1}''\<close>]
  obtain g' where r: \<open>redis_on_message sample_parse (\<lambda>i j. 7) ?g ''agent_run:r1'' ''{"x":1}'' = Inr g'\<close>
    and n: \<open>\<forall>i<length (clients ?g).
        (readyState (clients ?g ! i) \<noteq> OPEN \<longrightarrow> clients g' ! i = clients ?g ! i) \<and>
        (readyState (clients ?g ! i) = OPEN \<and>
         (\<exists>subs. map_of (clientSubscriptions ?g) (clientId (clients ?g ! i)) = Some subs \<and>
                 ''agent_run:r1'' \<in> subs) \<longrightarrow>
         (\<exists>t ts. sent (clients g' ! i) = sent (clients ?g ! i) @
            map (AgentEvent ''agent_run:r1''
                   (case sample_parse ''{"x":1}'' of None \<Rightarrow> JStr ''{"x":1}'' | Some parsed \<Rightarrow> on_wire parsed))
              (t # ts)))\<close>
    by blast
  from n[rule_format, of 0] have z: "clients g' ! 0 = \<lparr>clientId = ''b'', readyState = CLOSED, sent = [Connected ''b'' 1]\<rparr>"
    by simp
  from n[rule_format, of 1] have o: "\<exists>t ts. sent (clients g' ! 1) =
        Connected ''a'' 2 # map (AgentEvent ''agent_run:r1'' (JObj [(''x'', JNum ''1'')])) (t # ts)"
    by (simp add: sample_parse_def non_finite_def)
  from r z o show ?thesis by blast
qed

section \<open>Properties of the registry and the upstream subscriber\<close>

lemma forEach_client_no_interest:
  assumes "filter (\<lambda>(cid, subs). ch \<in> subs) entries = []"
  shows "forEach_client parse clock ch m entries cs = Inr cs"
proof -
  from forEach_client_delivers[of parse clock ch m entries cs] obtain cs' where
    r: "forEach_client parse clock ch m entries cs = Inr cs'"
    and l: "list_all2 (\<lambda>c c'. if readyState c = OPEN
        then \<exists>ts. length ts = length (filter (\<lambda>(cid, subs). ch \<in> subs) entries) \<and>
               c' = c\<lparr>sent := sent c @ map (AgentEvent ch (case parse m of None \<Rightarrow> JStr m | Some v \<Rightarrow> on_wire v)) ts\<rparr>
        else c' = c) cs cs'"
    by blast
  have same: "c = c'" if "if readyState c = OPEN
        then \<exists>ts. length ts = length (filter (\<lambda>(cid, subs). ch \<in> subs) entries) \<and>
               c' = c\<lparr>sent := sent c @ map (AgentEvent ch (case parse m of None \<Rightarrow> JStr m | Some v \<Rightarrow> on_wire v)) ts\<rparr>
        else c' = c" for c c' :: conn
  proof (cases "readyState c = OPEN")
    case True
    with that obtain ts where "length ts = 0"
      and "c' = c\<lparr>sent := sent c @ map (AgentEvent ch (case parse m of None \<Rightarrow> JStr m | Some v \<Rightarrow> on_wire v)) ts\<rparr>"
      unfolding assms by force
    then show ?thesis by simp
  next
    case False
    with that show ?thesis by simp
  qed
  have "list_all2 (\<lambda>c c'. c = c') cs cs'"
    using l by (rule list_all2_mono) (rule same)
  then have "cs = cs'" by (simp add: list_all2_eq)
  with r show ?thesis by simp
qed

lemma filter_update_none:
  assumes "distinct (map fst al)"
    and "\<forall>(k', s) \<in> set al. k' \<noteq> k \<longrightarrow> ch \<notin> s"
    and "ch \<notin> v"
  shows "filter (\<lambda>(cid, subs). ch \<in> subs) (AList.update k v al) = []"
  using assms
proof (induction al)
  case Nil
  then show ?case by simp
next
  case (Cons p ps)
  obtain k' s where p: "p = (k', s)" by (cases p)
  from Cons.prems have d: "distinct (map fst ps)" by simp
  from Cons.prems have o: "\<forall>(k', s) \<in> set ps. k' \<noteq> k \<longrightarrow> ch \<notin> s" by simp
  show ?case
  proof (cases "k' = k")
    case True
    have "ch \<notin> s'" if "(k'', s') \<in> set ps" for k'' s'
    proof -
      from that have "k'' \<in> fst ` set ps" by force
      with Cons.prems(1) p True have "k'' \<noteq> k" by auto
      with o that show ?thesis by blast
    qed
    then have "filter (\<lambda>(cid, subs). ch \<in> subs) ps = []"
      by (auto simp: filter_empty_conv)
    with True p Cons.prems(3) show ?thesis by simp
  next
    case False
    from Cons.prems(2) p False have "ch \<notin> s" by simp
    with False p Cons.IH[OF d o Cons.prems(3)] show ?thesis by simp
  qed
qed

lemma delete_absent: "k \<notin> fst ` set ps \<Longrightarrow> AList.delete k ps = ps"
  by (induction ps) (auto simp: AList.delete_eq)

lemma filter_delete_count:
  assumes "distinct (map fst al)" and "map_of al k = Some v"
  shows "length (filter P al) =
     (if P (k, v) then Suc (length (filter P (AList.delete k al)))
      else length (filter P (AList.delete k al)))"
  using assms
proof (induction al)
  case Nil
  then show ?case by simp
next
  case (Cons p ps)
  obtain k' s where p: "p = (k', s)" by (cases p)
  show ?case
  proof (cases "k' = k")
    case True
    with Cons.prems p have v: "s = v" by simp
    from True Cons.prems p have "k \<notin> fst ` set ps" by simp
    then have "AList.delete k ps = ps" by (rule delete_absent)
    with True p v show ?thesis by (simp add: AList.delete_eq)
  next
    case False
    from Cons.prems have d: "distinct (map fst ps)" by simp
    from Cons.prems p False have m: "map_of ps k = Some v" by simp
    from Cons.IH[OF d m] False p show ?thesis by (simp add: AList.delete_eq)
  qed
qed

lemma redis_on_message_no_interest:
  assumes "interest g ch = 0"
  shows "redis_on_message parse clock g ch m = Inr g"
proof -
  from assms have "filter (\<lambda>(cid, subs). ch \<in> subs) (clientSubscriptions g) = []"
    by (simp add: interest_def)
  then have "forEach_client parse clock ch m (clientSubscriptions g) (clients g) = Inr (clients g)"
    by (rule forEach_client_no_interest)
  then show ?thesis by (simp add: redis_on_message_def)
qed

lemma on_message_unsubscribe:
  assumes "parse data = Some msg"
    and "get_prop msg ''type'' = Inr (Some (JStr ''unsubscribe''))"
    and "get_prop msg ''run_id'' = Inr (Some r)"
    and "truthy (Some r)"
    and "js_string r = Inr s"
    and "map_of (clientSubscriptions g) (clientId ws) = Some subs"
  shows "on_message parse now ws g data =
     (ws, g\<lparr>clientSubscriptions :=
            AList.update (clientId ws) (subs - {''agent_run:'' @ s})
              (clientSubscriptions g)\<rparr>)"
proof -
  have b: "subscribe_branch msg (ws, g) = (None, (ws, g))"
    by (simp add: subscribe_branch_def assms(2) assms(3))
  have u: "unsubscribe_branch msg (ws, g) =
      (None, (ws, g\<lparr>clientSubscriptions :=
            AList.update (clientId ws) (subs - {''agent_run:'' @ s})
              (clientSubscriptions g)\<rparr>))"
    using assms(4)
    by (simp add: unsubscribe_branch_def assms(2) assms(3) assms(5) assms(6))
  have p: "ping_branch now msg st = (None, st)" for st
    by (cases st) (simp add: ping_branch_def assms(2))
  show ?thesis
    by (simp add: on_message_def assms(1) and_then_def b u p)
qed

text \<open>
  Claim C2, as the program has it. When the only connection whose set holds a channel
  sends an unsubscribe for it, no registry entry holds the channel afterwards, and a
  later publication on the channel sends nothing to any connection: it leaves every
  socket and the whole state as they are. The upstream subscriber still holds the
  channel; the handler makes no upstream call.
\<close>

theorem unsubscribe_last_keeps_upstream:
  assumes "i < length (clients g)"
    and "parse data = Some msg"
    and "get_prop msg ''type'' = Inr (Some (JStr ''unsubscribe''))"
    and "get_prop msg ''run_id'' = Inr (Some r)"
    and "truthy (Some r)"
    and "js_string r = Inr s"
    and "channel = ''agent_run:'' @ s"
    and "distinct (map fst (clientSubscriptions g))"
    and "map_of (clientSubscriptions g) (clientId (clients g ! i)) = Some subs"
    and "channel \<in> subs"
    and "\<forall>(cid, cs) \<in> set (clientSubscriptions g).
           cid \<noteq> clientId (clients g ! i) \<longrightarrow> channel \<notin> cs"
    and "channel \<in> upstream g"
  shows "\<exists>g'. step parse clock g (Frame i data now) = Inr g' \<and>
           clients g' = clients g \<and>
           interest g' channel = 0 \<and>
           channel \<in> upstream g' \<and>
           step parse clock g' (Publish channel message) = Inr g'"
proof -
  let ?g' = "g\<lparr>clientSubscriptions :=
            AList.update (clientId (clients g ! i)) (subs - {channel}) (clientSubscriptions g)\<rparr>"
  have m: "on_message parse now (clients g ! i) g data = (clients g ! i, ?g')"
    using on_message_unsubscribe[where parse = parse and data = data,
        OF assms(2) assms(3) assms(4) assms(5) assms(6) assms(9)]
    by (simp add: assms(7))
  have st: "step parse clock g (Frame i data now) = Inr ?g'"
    using assms(1) by (simp add: m)
  have "filter (\<lambda>(cid, subs). channel \<in> subs) (clientSubscriptions ?g') = []"
    using filter_update_none[OF assms(8) assms(11), of "subs - {channel}"] by simp
  then have int: "interest ?g' channel = 0"
    by (simp add: interest_def)
  have up: "channel \<in> upstream ?g'"
    using assms(12) by (simp add: upstream_def)
  have pub: "step parse clock ?g' (Publish channel message) = Inr ?g'"
    using up redis_on_message_no_interest[OF int] by (simp add: publish_def)
  from st int up pub show ?thesis by simp
qed

theorem unsubscribe_last_keeps_upstream_witness:
  \<open>\<exists>g'. step sample_parse (\<lambda>i j. 7)
       \<lparr>clients = [\<lparr>clientId = ''a'', readyState = OPEN,
                     sent = [Connected ''a'' 1, Subscribed ''agent_run:r1'' (JStr ''r1'')]\<rparr>],
          clientSubscriptions = [(''a'', {''agent_run:r1''})],
          redisSub = Some [''agent_run:r1'']\<rparr>
       (Frame 0 ''{"type":"unsubscribe","run_id":"r1"}'' 5) = Inr g' \<and>
     clients g' = [\<lparr>clientId = ''a'', readyState = OPEN,
                     sent = [Connected ''a'' 1, Subscribed ''agent_run:r1'' (JStr ''r1'')]\<rparr>] \<and>
     interest g' ''agent_run:r1'' = 0 \<and>
     ''agent_run:r1'' \<in> upstream g' \<and>
     step sample_parse (\<lambda>i j. 7) g' (Publish ''agent_run:r1'' ''{"x":1}'') = Inr g'\<close>
proof -
  let ?g = "\<lparr>clients = [\<lparr>clientId = ''a'', readyState = OPEN,
                     sent = [Connected ''a'' 1, Subscribed ''agent_run:r1'' (JStr ''r1'')]\<rparr>],
          clientSubscriptions = [(''a'', {''agent_run:r1''})],
          redisSub = Some [''agent_run:r1'']\<rparr>"
  let ?msg = "JObj [(''type'', JStr ''unsubscribe''), (''run_id'', JStr ''r1'')]"
  have h1: "0 < length (clients ?g)" by simp
  have h2: \<open>sample_parse ''{"type":"unsubscribe","run_id":"r1"}'' = Some ?msg\<close>
    by (simp add: sample_parse_def)
  have h3: "get_prop ?msg ''type'' = Inr (Some (JStr ''unsubscribe''))" by simp
  have h4: "get_prop ?msg ''run_id'' = Inr (Some (JStr ''r1''))" by simp
  have h5: "truthy (Some (JStr ''r1''))" by simp
  have h5': "js_string (JStr ''r1'') = Inr ''r1''" by simp
  have h6: "''agent_run:r1'' = ''agent_run:'' @ ''r1''" by simp
  have h7: "distinct (map fst (clientSubscriptions ?g))" by simp
  have h8: "map_of (clientSubscriptions ?g) (clientId (clients ?g ! 0)) = Some {''agent_run:r1''}"
    by simp
  have h9: "''agent_run:r1'' \<in> {''agent_run:r1''}" by simp
  have h10: "\<forall>(cid, s) \<in> set (clientSubscriptions ?g).
      cid \<noteq> clientId (clients ?g ! 0) \<longrightarrow> ''agent_run:r1'' \<notin> s" by simp
  have h11: "''agent_run:r1'' \<in> upstream ?g" by (simp add: upstream_def)
  from unsubscribe_last_keeps_upstream[where parse = sample_parse and g = "?g" and i = 0
      and clock = "\<lambda>i j. 7" and now = 5 and message = \<open>''{"x":1}''\<close>,
      OF h1 h2 h3 h4 h5 h5' h6 h7 h8 h9 h10 h11]
  show ?thesis by simp
qed

theorem unsubscribe_keeps_upstream_subscription:
  \<open>run sample_parse (\<lambda>i j. 7) (startup True)
     [Connection ''a'' 1,
      Frame 0 ''{"type":"subscribe","run_id":"r1"}'' 2,
      Frame 0 ''{"type":"unsubscribe","run_id":"r1"}'' 3]
   = Inr \<lparr>clients = [\<lparr>clientId = ''a'', readyState = OPEN,
                        sent = [Connected ''a'' 1, Subscribed ''agent_run:r1'' (JStr ''r1'')]\<rparr>],
           clientSubscriptions = [(''a'', {})],
           redisSub = Some [''agent_run:r1'']\<rparr> \<and>
   ''agent_run:r1'' \<in>
     upstream \<lparr>clients = [\<lparr>clientId = ''a'', readyState = OPEN,
                        sent = [Connected ''a'' 1, Subscribed ''agent_run:r1'' (JStr ''r1'')]\<rparr>],
           clientSubscriptions = [(''a'', {})],
           redisSub = Some [''agent_run:r1'']\<rparr>\<close>
  by (simp add: gateway_defs)

text \<open>
  Claim C5, as the program has it. When a connection closes, the registry entry of its
  client id is removed and the other entries stay; for each channel its set held, the
  number of entries holding that channel goes down by one, and for every other channel
  it stays. The upstream subscriber is not touched: it holds the channels it held.
\<close>

theorem close_drops_registry_entry:
  assumes "distinct (map fst (clientSubscriptions g))"
    and "map_of (clientSubscriptions g) (clientId ws) = Some subs"
  shows "map_of (clientSubscriptions (on_close ws g)) (clientId ws) = None \<and>
     (\<forall>cid. cid \<noteq> clientId ws \<longrightarrow>
        map_of (clientSubscriptions (on_close ws g)) cid = map_of (clientSubscriptions g) cid) \<and>
     (\<forall>channel. channel \<in> subs \<longrightarrow>
        interest g channel = Suc (interest (on_close ws g) channel)) \<and>
     (\<forall>channel. channel \<notin> subs \<longrightarrow>
        interest (on_close ws g) channel = interest g channel) \<and>
     redisSub (on_close ws g) = redisSub g \<and>
     upstream (on_close ws g) = upstream g"
proof -
  have a: "map_of (clientSubscriptions (on_close ws g)) (clientId ws) = None"
    by (simp add: on_close_def AList.delete_conv')
  have b: "\<forall>cid. cid \<noteq> clientId ws \<longrightarrow>
        map_of (clientSubscriptions (on_close ws g)) cid = map_of (clientSubscriptions g) cid"
    by (simp add: on_close_def)
  have c: "interest g channel =
      (if channel \<in> subs then Suc (interest (on_close ws g) channel)
       else interest (on_close ws g) channel)" for channel
    using filter_delete_count[OF assms, of "\<lambda>(cid, subs). channel \<in> subs"]
    by (simp add: interest_def on_close_def)
  have d: "redisSub (on_close ws g) = redisSub g"
    by (simp add: on_close_def)
  have e: "upstream (on_close ws g) = upstream g"
    by (simp add: upstream_def on_close_def)
  from a b c d e show ?thesis by simp
qed

theorem close_drops_registry_entry_witness:
  "map_of (clientSubscriptions (on_close
       \<lparr>clientId = ''a'', readyState = CLOSED, sent = [Connected ''a'' 1]\<rparr>
       \<lparr>clients = [], clientSubscriptions = [(''a'', {''agent_run:r1''}), (''b'', {''agent_run:r1''})],
          redisSub = Some [''agent_run:r1'', ''agent_run:r1'']\<rparr>)) ''a'' = None \<and>
   interest \<lparr>clients = [], clientSubscriptions = [(''a'', {''agent_run:r1''}), (''b'', {''agent_run:r1''})],
          redisSub = Some [''agent_run:r1'', ''agent_run:r1'']\<rparr> ''agent_run:r1'' = 2 \<and>
   interest (on_close
       \<lparr>clientId = ''a'', readyState = CLOSED, sent = [Connected ''a'' 1]\<rparr>
       \<lparr>clients = [], clientSubscriptions = [(''a'', {''agent_run:r1''}), (''b'', {''agent_run:r1''})],
          redisSub = Some [''agent_run:r1'', ''agent_run:r1'']\<rparr>) ''agent_run:r1'' = 1 \<and>
   upstream (on_close
       \<lparr>clientId = ''a'', readyState = CLOSED, sent = [Connected ''a'' 1]\<rparr>
       \<lparr>clients = [], clientSubscriptions = [(''a'', {''agent_run:r1''}), (''b'', {''agent_run:r1''})],
          redisSub = Some [''agent_run:r1'', ''agent_run:r1'']\<rparr>) = {''agent_run:r1''}"
proof -
  let ?ws = "\<lparr>clientId = ''a'', readyState = CLOSED, sent = [Connected ''a'' 1]\<rparr>"
  let ?g = "\<lparr>clients = [], clientSubscriptions = [(''a'', {''agent_run:r1''}), (''b'', {''agent_run:r1''})],
          redisSub = Some [''agent_run:r1'', ''agent_run:r1'']\<rparr>"
  have h1: "distinct (map fst (clientSubscriptions ?g))" by simp
  have h2: "map_of (clientSubscriptions ?g) (clientId ?ws) = Some {''agent_run:r1''}" by simp
  have i: "interest ?g ''agent_run:r1'' = 2" by (simp add: interest_def)
  have u: "upstream ?g = {''agent_run:r1''}" by (simp add: upstream_def)
  from close_drops_registry_entry[OF h1 h2]
  have a: "map_of (clientSubscriptions (on_close ?ws ?g)) (clientId ?ws) = None"
    and c: "\<forall>channel. channel \<in> {''agent_run:r1''} \<longrightarrow>
        interest ?g channel = Suc (interest (on_close ?ws ?g) channel)"
    and e: "upstream (on_close ?ws ?g) = upstream ?g"
    by blast+
  from c i have "interest (on_close ?ws ?g) ''agent_run:r1'' = 1" by simp
  with a i e u show ?thesis by simp
qed

theorem close_keeps_upstream_subscription:
  \<open>run sample_parse (\<lambda>i j. 7) (startup True)
     [Connection ''a'' 1,
      Frame 0 ''{"type":"subscribe","run_id":"r1"}'' 2,
      Close 0]
   = Inr \<lparr>clients = [], clientSubscriptions = [], redisSub = Some [''agent_run:r1'']\<rparr> \<and>
   interest \<lparr>clients = [], clientSubscriptions = [], redisSub = Some [''agent_run:r1'']\<rparr>
     ''agent_run:r1'' = 0 \<and>
   ''agent_run:r1'' \<in>
     upstream \<lparr>clients = [], clientSubscriptions = [], redisSub = Some [''agent_run:r1'']\<rparr>\<close>
  by (simp add: gateway_defs)

section \<open>Properties of subscribing\<close>

lemma on_message_subscribe:
  assumes "parse data = Some msg"
    and "get_prop msg ''type'' = Inr (Some (JStr ''subscribe''))"
    and "get_prop msg ''run_id'' = Inr (Some r)"
    and "truthy (Some r)"
  shows "on_message parse now ws g data = fst (snd (subscribe_branch msg (ws, g)), snd (snd (subscribe_branch msg (ws, g))))"
proof -
  have u: "unsubscribe_branch msg st = (None, st)" for st
    by (cases st) (simp add: unsubscribe_branch_def assms(2) assms(3))
  have p: "ping_branch now msg st = (None, st)" for st
    by (cases st) (simp add: ping_branch_def assms(2))
  show ?thesis
    by (cases "subscribe_branch msg (ws, g)" rule: prod.exhaust)
       (auto simp add: on_message_def assms(1) and_then_def u p split: option.splits)
qed

lemma subscribe_branch_known:
  assumes "get_prop msg ''type'' = Inr (Some (JStr ''subscribe''))"
    and "get_prop msg ''run_id'' = Inr (Some r)"
    and "truthy (Some r)"
    and "js_string r = Inr s"
    and "map_of (clientSubscriptions g) (clientId ws) = Some subs"
    and "''agent_run:'' @ s \<in> subs"
  shows "subscribe_branch msg (ws, g) = (None, (ws, g))"
  using assms(3) assms(6)
  by (simp add: subscribe_branch_def assms(1) assms(2) assms(4) assms(5))

lemma subscribe_branch_new:
  assumes "get_prop msg ''type'' = Inr (Some (JStr ''subscribe''))"
    and "get_prop msg ''run_id'' = Inr (Some r)"
    and "truthy (Some r)"
    and "js_string r = Inr s"
    and "map_of (clientSubscriptions g) (clientId ws) = Some subs"
    and "''agent_run:'' @ s \<notin> subs"
  shows "\<exists>e ws'. subscribe_branch msg (ws, g) =
     (e, (ws', g\<lparr>clientSubscriptions :=
                   AList.update (clientId ws) (insert (''agent_run:'' @ s) subs)
                     (clientSubscriptions g),
                 redisSub := (case redisSub g of None \<Rightarrow> None
                              | Some calls \<Rightarrow> Some (calls @ [''agent_run:'' @ s]))\<rparr>)) \<and>
     (readyState ws = OPEN \<longrightarrow>
        ws' = ws\<lparr>sent := sent ws @ [Subscribed (''agent_run:'' @ s) (on_wire r)]\<rparr>)"
  using assms(3) assms(6)
  by (cases "readyState ws"; cases "redisSub g")
     (simp_all add: subscribe_branch_def assms(1) assms(2) assms(4) assms(5) Let_def)

text \<open>
  Claim C3, as the program has it. A subscribe frame makes one upstream subscribe call
  for the channel exactly when the sending connection's own set did not hold the
  channel, whether or not another connection (and so the upstream subscriber) already
  holds it; a connection whose own set holds the channel makes none. A call for a
  channel already held upstream leaves the set of upstream channels as it is.
\<close>

theorem subscribe_upstream_calls:
  assumes "parse data = Some msg"
    and "get_prop msg ''type'' = Inr (Some (JStr ''subscribe''))"
    and "get_prop msg ''run_id'' = Inr (Some r)"
    and "truthy (Some r)"
    and "js_string r = Inr s"
    and "channel = ''agent_run:'' @ s"
    and "map_of (clientSubscriptions g) (clientId ws) = Some subs"
  shows "(channel \<in> subs \<longrightarrow> redisSub (snd (on_message parse now ws g data)) = redisSub g) \<and>
     (channel \<notin> subs \<longrightarrow>
        redisSub (snd (on_message parse now ws g data)) =
          (case redisSub g of None \<Rightarrow> None | Some calls \<Rightarrow> Some (calls @ [channel]))) \<and>
     (channel \<in> upstream g \<longrightarrow> upstream (snd (on_message parse now ws g data)) = upstream g)"
proof -
  note om = on_message_subscribe[where parse = parse and data = data and now = now
      and ws = ws and g = g, OF assms(1) assms(2) assms(3) assms(4)]
  have a: "redisSub (snd (on_message parse now ws g data)) = redisSub g" if "channel \<in> subs"
    using subscribe_branch_known[OF assms(2) assms(3) assms(4) assms(5) assms(7)] that
    by (simp add: om assms(6))
  have b: "redisSub (snd (on_message parse now ws g data)) =
          (case redisSub g of None \<Rightarrow> None | Some calls \<Rightarrow> Some (calls @ [channel]))"
    if "channel \<notin> subs"
  proof -
    from that have "''agent_run:'' @ s \<notin> subs" by (simp add: assms(6))
    from subscribe_branch_new[OF assms(2) assms(3) assms(4) assms(5) assms(7) this]
    obtain e ws' where "subscribe_branch msg (ws, g) =
     (e, (ws', g\<lparr>clientSubscriptions :=
                   AList.update (clientId ws) (insert (''agent_run:'' @ s) subs)
                     (clientSubscriptions g),
                 redisSub := (case redisSub g of None \<Rightarrow> None
                              | Some calls \<Rightarrow> Some (calls @ [''agent_run:'' @ s]))\<rparr>))"
      by blast
    then show ?thesis unfolding assms(6) by (simp add: om)
  qed
  have c: "upstream (snd (on_message parse now ws g data)) = upstream g" if "channel \<in> upstream g"
  proof (cases "channel \<in> subs")
    case True
    with a show ?thesis by (simp add: upstream_def)
  next
    case False
    with b that show ?thesis by (auto simp add: upstream_def split: option.splits)
  qed
  from a b c show ?thesis by blast
qed

theorem subscribe_upstream_calls_witness:
  \<open>redisSub (snd (on_message sample_parse 5
       \<lparr>clientId = ''b'', readyState = OPEN, sent = [Connected ''b'' 2]\<rparr>
       \<lparr>clients = [], clientSubscriptions = [(''a'', {''agent_run:r1''}), (''b'', {})],
          redisSub = Some [''agent_run:r1'']\<rparr>
       ''{"type":"subscribe","run_id":"r1"}'')) = Some [''agent_run:r1'', ''agent_run:r1''] \<and>
   upstream (snd (on_message sample_parse 5
       \<lparr>clientId = ''b'', readyState = OPEN, sent = [Connected ''b'' 2]\<rparr>
       \<lparr>clients = [], clientSubscriptions = [(''a'', {''agent_run:r1''}), (''b'', {})],
          redisSub = Some [''agent_run:r1'']\<rparr>
       ''{"type":"subscribe","run_id":"r1"}'')) = {''agent_run:r1''}\<close>
proof -
  let ?ws = "\<lparr>clientId = ''b'', readyState = OPEN, sent = [Connected ''b'' 2]\<rparr>"
  let ?g = "\<lparr>clients = [], clientSubscriptions = [(''a'', {''agent_run:r1''}), (''b'', {})],
          redisSub = Some [''agent_run:r1'']\<rparr>"
  let ?msg = "JObj [(''type'', JStr ''subscribe''), (''run_id'', JStr ''r1'')]"
  have h1: \<open>sample_parse ''{"type":"subscribe","run_id":"r1"}'' = Some ?msg\<close>
    by (simp add: sample_parse_def)
  have h2: "get_prop ?msg ''type'' = Inr (Some (JStr ''subscribe''))" by simp
  have h3: "get_prop ?msg ''run_id'' = Inr (Some (JStr ''r1''))" by simp
  have h4: "truthy (Some (JStr ''r1''))" by simp
  have h4': "js_string (JStr ''r1'') = Inr ''r1''" by simp
  have h5: "''agent_run:r1'' = ''agent_run:'' @ ''r1''" by simp
  have h6: "map_of (clientSubscriptions ?g) (clientId ?ws) = Some {}" by simp
  have u: "upstream ?g = {''agent_run:r1''}" by (simp add: upstream_def)
  from subscribe_upstream_calls[where parse = sample_parse and now = 5 and ws = "?ws"
      and g = "?g", OF h1 h2 h3 h4 h4' h5 h6] u
  show ?thesis by simp
qed

theorem second_connection_subscribes_upstream:
  \<open>run sample_parse (\<lambda>i j. 7) (startup True)
     [Connection ''a'' 1, Connection ''b'' 2,
      Frame 0 ''{"type":"subscribe","run_id":"r1"}'' 3,
      Frame 1 ''{"type":"subscribe","run_id":"r1"}'' 4]
   = Inr \<lparr>clients =
            [\<lparr>clientId = ''a'', readyState = OPEN,
                sent = [Connected ''a'' 1, Subscribed ''agent_run:r1'' (JStr ''r1'')]\<rparr>,
             \<lparr>clientId = ''b'', readyState = OPEN,
                sent = [Connected ''b'' 2, Subscribed ''agent_run:r1'' (JStr ''r1'')]\<rparr>],
           clientSubscriptions = [(''a'', {''agent_run:r1''}), (''b'', {''agent_run:r1''})],
           redisSub = Some [''agent_run:r1'', ''agent_run:r1'']\<rparr>\<close>
  by (simp add: gateway_defs)

text \<open>
  Claim C6, as the program has it. A subscribe frame with a truthy \<^verbatim>\<open>run_id\<close> that has
  a text (the \<^verbatim>\<open>run_id\<close> itself when it is a string), received on an open connection
  that has a registry entry, names the channel \<^verbatim>\<open>agent_run:\<close> followed by that text.
  When the connection's set does not hold that channel yet, the channel is added to
  that connection's set (and to no other), and the connection is sent
  \<^verbatim>\<open>{type:'subscribed', channel, run_id}\<close> with the \<^verbatim>\<open>run_id\<close> as \<^verbatim>\<open>JSON.stringify\<close>
  writes it: the same \<^verbatim>\<open>run_id\<close> when it holds no number that is not finite (so for
  every string), and otherwise the \<^verbatim>\<open>run_id\<close> with \<^verbatim>\<open>null\<close> in place of each such
  number. When the set already holds the channel, the frame changes nothing and no
  reply is sent.
\<close>

theorem subscribe_acknowledged:
  assumes "parse data = Some msg"
    and "get_prop msg ''type'' = Inr (Some (JStr ''subscribe''))"
    and "get_prop msg ''run_id'' = Inr (Some r)"
    and "truthy (Some r)"
    and "js_string r = Inr s"
    and "channel = ''agent_run:'' @ s"
    and "readyState ws = OPEN"
    and "map_of (clientSubscriptions g) (clientId ws) = Some subs"
  shows "(channel \<notin> subs \<longrightarrow>
        sent (fst (on_message parse now ws g data)) =
          sent ws @ [Subscribed channel (on_wire r)] \<and>
        map_of (clientSubscriptions (snd (on_message parse now ws g data))) (clientId ws) =
          Some (insert channel subs) \<and>
        (\<forall>cid. cid \<noteq> clientId ws \<longrightarrow>
           map_of (clientSubscriptions (snd (on_message parse now ws g data))) cid =
             map_of (clientSubscriptions g) cid)) \<and>
     (channel \<in> subs \<longrightarrow> on_message parse now ws g data = (ws, g)) \<and>
     (finite_json r \<longrightarrow> on_wire r = r)"
proof -
  note om = on_message_subscribe[where parse = parse and data = data and now = now
      and ws = ws and g = g, OF assms(1) assms(2) assms(3) assms(4)]
  have a: "on_message parse now ws g data = (ws, g)" if "channel \<in> subs"
    using subscribe_branch_known[OF assms(2) assms(3) assms(4) assms(5) assms(8)] that
    by (simp add: om assms(6))
  have b: "sent (fst (on_message parse now ws g data)) =
          sent ws @ [Subscribed channel (on_wire r)] \<and>
        map_of (clientSubscriptions (snd (on_message parse now ws g data))) (clientId ws) =
          Some (insert channel subs) \<and>
        (\<forall>cid. cid \<noteq> clientId ws \<longrightarrow>
           map_of (clientSubscriptions (snd (on_message parse now ws g data))) cid =
             map_of (clientSubscriptions g) cid)"
    if "channel \<notin> subs"
  proof -
    from that have "''agent_run:'' @ s \<notin> subs" by (simp add: assms(6))
    from subscribe_branch_new[OF assms(2) assms(3) assms(4) assms(5) assms(8) this] assms(7)
    obtain e where "subscribe_branch msg (ws, g) =
     (e, (ws\<lparr>sent := sent ws @ [Subscribed (''agent_run:'' @ s) (on_wire r)]\<rparr>,
          g\<lparr>clientSubscriptions :=
                   AList.update (clientId ws) (insert (''agent_run:'' @ s) subs)
                     (clientSubscriptions g),
                 redisSub := (case redisSub g of None \<Rightarrow> None
                              | Some calls \<Rightarrow> Some (calls @ [''agent_run:'' @ s]))\<rparr>))"
      by blast
    then show ?thesis by (simp add: om assms(6) AList.update_conv')
  qed
  from a b on_wire_finite[of r] show ?thesis by blast
qed

theorem subscribe_acknowledged_witness:
  \<open>sent (fst (on_message sample_parse 5
       \<lparr>clientId = ''a'', readyState = OPEN, sent = [Connected ''a'' 1]\<rparr>
       \<lparr>clients = [], clientSubscriptions = [(''a'', {})], redisSub = Some []\<rparr>
       ''{"type":"subscribe","run_id":"r1"}''))
     = [Connected ''a'' 1, Subscribed ''agent_run:r1'' (JStr ''r1'')] \<and>
   map_of (clientSubscriptions (snd (on_message sample_parse 5
       \<lparr>clientId = ''a'', readyState = OPEN, sent = [Connected ''a'' 1]\<rparr>
       \<lparr>clients = [], clientSubscriptions = [(''a'', {})], redisSub = Some []\<rparr>
       ''{"type":"subscribe","run_id":"r1"}''))) ''a'' = Some {''agent_run:r1''}\<close>
proof -
  let ?ws = "\<lparr>clientId = ''a'', readyState = OPEN, sent = [Connected ''a'' 1]\<rparr>"
  let ?g = "\<lparr>clients = [], clientSubscriptions = [(''a'', {})], redisSub = Some []\<rparr>"
  let ?msg = "JObj [(''type'', JStr ''subscribe''), (''run_id'', JStr ''r1'')]"
  have h1: \<open>sample_parse ''{"type":"subscribe","run_id":"r1"}'' = Some ?msg\<close>
    by (simp add: sample_parse_def)
  have h2: "get_prop ?msg ''type'' = Inr (Some (JStr ''subscribe''))" by simp
  have h3: "get_prop ?msg ''run_id'' = Inr (Some (JStr ''r1''))" by simp
  have h4: "truthy (Some (JStr ''r1''))" by simp
  have h4': "js_string (JStr ''r1'') = Inr ''r1''" by simp
  have h5: "''agent_run:r1'' = ''agent_run:'' @ ''r1''" by simp
  have h6: "readyState ?ws = OPEN" by simp
  have h7: "map_of (clientSubscriptions ?g) (clientId ?ws) = Some {}" by simp
  from subscribe_acknowledged[where parse = sample_parse and now = 5 and ws = "?ws"
      and g = "?g", OF h1 h2 h3 h4 h4' h5 h6 h7]
  show ?thesis by simp
qed

theorem repeated_subscribe_not_acknowledged:
  \<open>run sample_parse (\<lambda>i j. 7) (startup True)
     [Connection ''a'' 1,
      Frame 0 ''{"type":"subscribe","run_id":"r1"}'' 2,
      Frame 0 ''{"type":"subscribe","run_id":"r1"}'' 3]
   = Inr \<lparr>clients =
            [\<lparr>clientId = ''a'', readyState = OPEN,
                sent = [Connected ''a'' 1, Subscribed ''agent_run:r1'' (JStr ''r1'')]\<rparr>],
           clientSubscriptions = [(''a'', {''agent_run:r1''})],
           redisSub = Some [''agent_run:r1'']\<rparr>\<close>
  by (simp add: gateway_defs)

section \<open>What forwarding does with several connections\<close>

text \<open>
  Claim C1 on a concrete run. Three connections are accepted; the first two subscribe
  to run \<^verbatim>\<open>r1\<close>, the third subscribes to nothing; one message is published on
  \<^verbatim>\<open>agent_run:r1\<close>. Each of the three connections is sent the message twice: once for
  each registry entry that holds the channel, whichever connection the entry belongs to.
\<close>

theorem forwarding_copies_per_entry:
  \<open>run sample_parse (\<lambda>i j. 7) (startup True)
     [Connection ''a'' 1, Connection ''b'' 2, Connection ''c'' 3,
      Frame 0 ''{"type":"subscribe","run_id":"r1"}'' 4,
      Frame 1 ''{"type":"subscribe","run_id":"r1"}'' 5,
      Publish ''agent_run:r1'' ''{"x":1}'']
   = Inr \<lparr>clients =
        [\<lparr>clientId = ''a'', readyState = OPEN,
            sent = [Connected ''a'' 1, Subscribed ''agent_run:r1'' (JStr ''r1''),
               AgentEvent ''agent_run:r1'' (JObj [(''x'', JNum ''1'')]) 7,
               AgentEvent ''agent_run:r1'' (JObj [(''x'', JNum ''1'')]) 7]\<rparr>,
         \<lparr>clientId = ''b'', readyState = OPEN,
            sent = [Connected ''b'' 2, Subscribed ''agent_run:r1'' (JStr ''r1''),
               AgentEvent ''agent_run:r1'' (JObj [(''x'', JNum ''1'')]) 7,
               AgentEvent ''agent_run:r1'' (JObj [(''x'', JNum ''1'')]) 7]\<rparr>,
         \<lparr>clientId = ''c'', readyState = OPEN,
            sent = [Connected ''c'' 3,
               AgentEvent ''agent_run:r1'' (JObj [(''x'', JNum ''1'')]) 7,
               AgentEvent ''agent_run:r1'' (JObj [(''x'', JNum ''1'')]) 7]\<rparr>],
        clientSubscriptions =
          [(''a'', {''agent_run:r1''}), (''b'', {''agent_run:r1''}), (''c'', {})],
        redisSub = Some [''agent_run:r1'', ''agent_run:r1'']\<rparr>\<close>
  by (simp add: gateway_defs)

section \<open>Properties of the browser's service\<close>

lemma call_all_calls:
  "(h, d') \<in> set (fst (call_all throws hs d)) \<Longrightarrow> d' = d \<and> h \<in> set hs"
  by (induction hs) (auto split: if_splits prod.splits)

lemma emit_calls:
  assumes "(h, d') \<in> set (fst (emit throws svc ev d))"
  shows "d' = d \<and> (\<exists>hs. map_of (handlers svc) ev = Some hs \<and> h \<in> set hs)"
  using assms call_all_calls[of h d' throws _ d]
  by (auto simp: emit_def split: option.splits)

lemma onmessage_calls:
  assumes "(h, d') \<in> set (onmessage parse throws svc event_data)"
  shows "\<exists>d. parse event_data = Some d \<and>
     ((h, d') \<in> set (fst (emit throws svc ''message'' d)) \<or>
      (\<exists>inner. get_prop d ''type'' = Inr (Some (JStr ''agent_event'')) \<and>
         get_prop d ''data'' = Inr (Some inner) \<and>
         ((\<exists>rid s. get_prop inner ''run_id'' = Inr (Some rid) \<and> truthy (Some rid) \<and>
             js_string rid = Inr s \<and>
             (h, d') \<in> set (fst (emit throws svc (''run:'' @ s) d))) \<or>
          (\<exists>p s. get_prop inner ''project_id'' = Inr (Some p) \<and> truthy (Some p) \<and>
             js_string p = Inr s \<and>
             (h, d') \<in> set (fst (emit throws svc (''project:'' @ s) d))))))"
proof (cases "parse event_data")
  case None
  with assms show ?thesis by (simp add: onmessage_def)
next
  case (Some d)
  obtain calls1 t1 where e1: "emit throws svc ''message'' d = (calls1, t1)"
    by (cases "emit throws svc ''message'' d")
  show ?thesis
  proof (cases "(h, d') \<in> set calls1")
    case True
    with Some e1 show ?thesis by simp
  next
    case False
    with assms Some e1 show ?thesis
      by (auto simp: onmessage_def split: sum.splits option.splits if_splits prod.splits bool.splits)
  qed
qed

text \<open>
  Claim C10, as the program has it. Take a handler that is registered under the event
  name of run \<open>r\<close> and under no other name. Every call the service makes to it while
  handling a frame is on a frame that parsed, whose \<^verbatim>\<open>type\<close> is \<^verbatim>\<open>"agent_event"\<close>, whose
  \<^verbatim>\<open>data\<close> is present, and whose \<^verbatim>\<open>data.run_id\<close> is truthy and has the text \<open>r\<close> in a
  template string. When \<^verbatim>\<open>data.run_id\<close> is a string, as \<^verbatim>\<open>AgentEvent\<close> declares it, it
  is \<open>r\<close> itself; a \<^verbatim>\<open>run_id\<close> that is not a string but has the text \<open>r\<close> (the array
  \<^verbatim>\<open>["r1"]\<close> for run \<^verbatim>\<open>r1\<close>) reaches the handler too. A frame of another type,
  without data, or with a \<^verbatim>\<open>run_id\<close> of another text never reaches the handler.
\<close>

theorem run_handler_only_for_its_run:
  assumes "(h, d) \<in> set (onmessage parse throws svc event_data)"
    and "\<forall>ev hs. map_of (handlers svc) ev = Some hs \<and> h \<in> set hs \<longrightarrow> ev = ''run:'' @ r"
  shows "parse event_data = Some d \<and>
     get_prop d ''type'' = Inr (Some (JStr ''agent_event'')) \<and>
     (\<exists>inner rid. get_prop d ''data'' = Inr (Some inner) \<and>
        get_prop inner ''run_id'' = Inr (Some rid) \<and> truthy (Some rid) \<and>
        js_string rid = Inr r \<and> (\<forall>x. rid = JStr x \<longrightarrow> x = r))"
proof -
  have only: "ev = ''run:'' @ r" if "(h, d) \<in> set (fst (emit throws svc ev d0))" for ev d0
    using emit_calls[OF that] assms(2) by blast
  have same: "d = d0" if "(h, d) \<in> set (fst (emit throws svc ev d0))" for ev d0
    using emit_calls[OF that] by simp
  from onmessage_calls[OF assms(1)] obtain d0 where p: "parse event_data = Some d0"
    and c: "(h, d) \<in> set (fst (emit throws svc ''message'' d0)) \<or>
      (\<exists>inner. get_prop d0 ''type'' = Inr (Some (JStr ''agent_event'')) \<and>
         get_prop d0 ''data'' = Inr (Some inner) \<and>
         ((\<exists>rid s. get_prop inner ''run_id'' = Inr (Some rid) \<and> truthy (Some rid) \<and>
             js_string rid = Inr s \<and>
             (h, d) \<in> set (fst (emit throws svc (''run:'' @ s) d0))) \<or>
          (\<exists>p s. get_prop inner ''project_id'' = Inr (Some p) \<and> truthy (Some p) \<and>
             js_string p = Inr s \<and>
             (h, d) \<in> set (fst (emit throws svc (''project:'' @ s) d0)))))"
    by blast
  have n1: "(h, d) \<notin> set (fst (emit throws svc ''message'' d0))"
    using only[of "''message''" d0] by auto
  have n2: "(h, d) \<notin> set (fst (emit throws svc (''project:'' @ s) d0))" for s
    using only[of "''project:'' @ s" d0] by auto
  from c n1 n2 obtain inner rid s where t: "get_prop d0 ''type'' = Inr (Some (JStr ''agent_event''))"
    and i: "get_prop d0 ''data'' = Inr (Some inner)"
    and r: "get_prop inner ''run_id'' = Inr (Some rid)" "truthy (Some rid)"
    and j: "js_string rid = Inr s"
    and e: "(h, d) \<in> set (fst (emit throws svc (''run:'' @ s) d0))"
    by blast
  from only[OF e] j have k: "js_string rid = Inr r" by simp
  then have "\<forall>x. rid = JStr x \<longrightarrow> x = r" by auto
  moreover from same[OF e] have "d = d0" .
  ultimately show ?thesis using p t i r k by blast
qed

theorem run_handler_only_for_its_run_witness:
  \<open>(7, JObj [(''type'', JStr ''agent_event''), (''channel'', JStr ''agent_run:r1''),
            (''data'', JObj [(''run_id'', JStr ''r1'')]), (''timestamp'', JNum ''7'')])
     \<in> set (onmessage sample_parse (\<lambda>h d. False)
              (on (on \<lparr>handlers = []\<rparr> ''message'' 1) ''run:r1'' 7)
              ''{"type":"agent_event","channel":"agent_run:r1","data":{"run_id":"r1"},"timestamp":7}'') \<and>
   sample_parse
     ''{"type":"agent_event","channel":"agent_run:r1","data":{"run_id":"r1"},"timestamp":7}''
   = Some (JObj [(''type'', JStr ''agent_event''), (''channel'', JStr ''agent_run:r1''),
            (''data'', JObj [(''run_id'', JStr ''r1'')]), (''timestamp'', JNum ''7'')]) \<and>
   (\<exists>inner rid.
      get_prop (JObj [(''type'', JStr ''agent_event''), (''channel'', JStr ''agent_run:r1''),
            (''data'', JObj [(''run_id'', JStr ''r1'')]), (''timestamp'', JNum ''7'')]) ''data''
        = Inr (Some inner) \<and>
      get_prop inner ''run_id'' = Inr (Some rid) \<and> js_string rid = Inr ''r1'')\<close>
proof -
  let ?d = "JObj [(''type'', JStr ''agent_event''), (''channel'', JStr ''agent_run:r1''),
            (''data'', JObj [(''run_id'', JStr ''r1'')]), (''timestamp'', JNum ''7'')]"
  let ?svc = "on (on \<lparr>handlers = []\<rparr> ''message'' 1) ''run:r1'' 7"
  have s: "handlers ?svc = [(''message'', [1]), (''run:r1'', [7])]"
    by (simp add: on_def)
  have h1: \<open>(7, ?d) \<in> set (onmessage sample_parse (\<lambda>h d. False) ?svc
      ''{"type":"agent_event","channel":"agent_run:r1","data":{"run_id":"r1"},"timestamp":7}'')\<close>
    by (simp add: onmessage_def sample_parse_def emit_def on_def)
  have h2: "\<forall>ev hs. map_of (handlers ?svc) ev = Some hs \<and> 7 \<in> set hs \<longrightarrow> ev = ''run:'' @ ''r1''"
    unfolding s by (auto split: if_splits)
  from run_handler_only_for_its_run[OF h1 h2] h1
  show ?thesis by blast
qed

theorem run_handler_called_on_array_run_id:
  \<open>onmessage sample_parse (\<lambda>h d. False) (on \<lparr>handlers = []\<rparr> ''run:r1'' 7)
     ''{"type":"agent_event","data":{"run_id":["r1"]}}''
   = [(7, JObj [(''type'', JStr ''agent_event''),
                (''data'', JObj [(''run_id'', JArr [JStr ''r1''])])])] \<and>
   JArr [JStr ''r1''] \<noteq> JStr ''r1''\<close>
  by (simp add: onmessage_def sample_parse_def emit_def on_def)

section \<open>The gateway over whole runs\<close>

text \<open>
  The registry is a Map: its keys stay distinct through every handler, so they are
  distinct in every state the gateway reaches from its start. No handler of the event
  loop throws.
\<close>

lemma subscribe_branch_keys:
  assumes "subscribe_branch msg (ws, g) = (e, (ws', g'))"
  shows "map fst (clientSubscriptions g') = map fst (clientSubscriptions g) \<and>
         clients g' = clients g"
proof -
  have k: "map fst (AList.update k v al) = map fst al" if "map_of al k = Some v0" for k v v0 and al :: "(string \<times> string set) list"
    using that by (induction al) (auto split: if_splits)
  show ?thesis
    using assms
    by (auto simp: subscribe_branch_def Let_def k
        split: sum.splits option.splits if_splits ready_state.splits)
qed

lemma unsubscribe_branch_keys:
  assumes "unsubscribe_branch msg (ws, g) = (e, (ws', g'))"
  shows "map fst (clientSubscriptions g') = map fst (clientSubscriptions g) \<and>
         clients g' = clients g"
proof -
  have k: "map fst (AList.update k v al) = map fst al" if "map_of al k = Some v0" for k v v0 and al :: "(string \<times> string set) list"
    using that by (induction al) (auto split: if_splits)
  show ?thesis
    using assms
    by (auto simp: unsubscribe_branch_def Let_def k
        split: sum.splits option.splits if_splits)
qed

lemma ping_branch_keys:
  assumes "ping_branch now msg (ws, g) = (e, (ws', g'))"
  shows "g' = g"
  using assms
  by (auto simp: ping_branch_def split: sum.splits option.splits if_splits ready_state.splits)

lemma on_message_keys:
  assumes "on_message parse now ws g data = (ws', g')"
  shows "map fst (clientSubscriptions g') = map fst (clientSubscriptions g) \<and>
         clients g' = clients g"
proof (cases "parse data")
  case None
  with assms show ?thesis by (simp add: on_message_def)
next
  case (Some msg)
  obtain e1 ws1 g1 where b1: "subscribe_branch msg (ws, g) = (e1, (ws1, g1))"
    by (metis prod.exhaust)
  obtain e2 ws2 g2 where b2: "unsubscribe_branch msg (ws1, g1) = (e2, (ws2, g2))"
    by (metis prod.exhaust)
  obtain e3 ws3 g3 where b3: "ping_branch now msg (ws2, g2) = (e3, (ws3, g3))"
    by (metis prod.exhaust)
  from subscribe_branch_keys[OF b1] unsubscribe_branch_keys[OF b2] ping_branch_keys[OF b3]
  have "map fst (clientSubscriptions g1) = map fst (clientSubscriptions g) \<and> clients g1 = clients g"
    and "map fst (clientSubscriptions g2) = map fst (clientSubscriptions g) \<and> clients g2 = clients g"
    and "map fst (clientSubscriptions g3) = map fst (clientSubscriptions g) \<and> clients g3 = clients g"
    by simp_all
  moreover have "g' = g1 \<or> g' = g2 \<or> g' = g3"
    using assms by (auto simp: on_message_def Some and_then_def b1 b2 b3 split: option.splits)
  ultimately show ?thesis by auto
qed

lemma step_distinct:
  assumes "distinct (map fst (clientSubscriptions g))"
    and "step parse clock g ev = Inr g'"
  shows "distinct (map fst (clientSubscriptions g'))"
proof (cases ev)
  case (Connection cid now)
  with assms show ?thesis
    by (auto simp: on_connection_def Let_def AList.distinct_update)
next
  case (Frame i data now)
  show ?thesis
  proof (cases "i < length (clients g)")
    case True
    obtain ws' g1 where m: "on_message parse now (clients g ! i) g data = (ws', g1)"
      by (metis prod.exhaust)
    from assms(2) Frame True m have "g' = g1\<lparr>clients := (clients g1)[i := ws']\<rparr>" by simp
    with on_message_keys[OF m] assms(1) show ?thesis by simp
  next
    case False
    with assms Frame show ?thesis by simp
  qed
next
  case (Close i)
  with assms show ?thesis
    by (auto simp: on_close_def AList.distinct_delete split: if_splits)
next
  case (Publish channel message)
  from redis_on_message_delivers[of parse clock g channel message] obtain g1 where
    "redis_on_message parse clock g channel message = Inr g1"
    and "clientSubscriptions g1 = clientSubscriptions g"
    by blast
  with assms Publish show ?thesis
    by (auto simp: publish_def split: if_splits)
qed

lemma run_distinct:
  assumes "distinct (map fst (clientSubscriptions g))"
    and "run parse clock g evs = Inr g'"
  shows "distinct (map fst (clientSubscriptions g'))"
  using assms
proof (induction evs arbitrary: g)
  case Nil
  then show ?case by simp
next
  case (Cons ev evs)
  from Cons.prems(2) obtain g1 where s: "step parse clock g ev = Inr g1"
    and r: "run parse clock g1 evs = Inr g'"
    by (auto split: sum.splits)
  from step_distinct[OF Cons.prems(1) s] have "distinct (map fst (clientSubscriptions g1))" .
  from Cons.IH[OF this r] show ?case .
qed

lemma reachable_distinct:
  assumes "run parse clock (startup redis_ok) evs = Inr g"
  shows "distinct (map fst (clientSubscriptions g))"
  using run_distinct[OF _ assms] by (simp add: startup_def)

lemma step_total: "\<exists>g'. step parse clock g ev = Inr g'"
proof (cases ev)
  case (Connection cid now)
  then show ?thesis by (simp add: on_connection_def)
next
  case (Frame i data now)
  then show ?thesis by (cases "on_message parse now (clients g ! i) g data") simp
next
  case (Close i)
  then show ?thesis by simp
next
  case (Publish channel message)
  from redis_on_message_delivers[of parse clock g channel message] Publish
  show ?thesis by (auto simp: publish_def)
qed

lemma run_total: "\<exists>g'. run parse clock g evs = Inr g'"
proof (induction evs arbitrary: g)
  case Nil
  then show ?case by simp
next
  case (Cons ev evs)
  from step_total[of parse clock g ev] obtain g1 where "step parse clock g ev = Inr g1" ..
  with Cons.IH[of g1] show ?case by simp
qed

end
